theory Spec2Isabelle
  imports Complex_Main "HOL-Library.Sublist"
begin

section \<open>JavaScript values\<close>

text \<open>
  The handlers receive JSON bodies, header objects and platform results. A value is one
  of the JSON shapes, \<open>undefined\<close>, a \<open>Date\<close> object, or one of the built-in
  objects that every plain object inherits from \<open>Object.prototype\<close> (named by the
  property under which it is found). An object is the list of its own enumerable
  properties, in the order \<open>Object.entries\<close> yields them.
\<close>

datatype jsval =
    Undefined
  | Null
  | Bool bool
  | Num rat
  | Str string
  | Arr "jsval list"
  | Obj "(string \<times> jsval) list"
  | DateObj jsval
  | Intrinsic string

datatype error =
    TypeError
  | Error string
  | Rejected jsval

text \<open>
  \<open>TypeError\<close> is raised by the engine (reading a property of \<open>null\<close> or
  \<open>undefined\<close>, calling something that is not a function). \<open>Error msg\<close> is
  \<open>throw new Error(msg)\<close> in a handler. \<open>Rejected v\<close> is whatever a platform call or
  a built-in rejects or throws with.
\<close>

fun truthy :: "jsval \<Rightarrow> bool" where
  "truthy Undefined = False"
| "truthy Null = False"
| "truthy (Bool b) = b"
| "truthy (Num n) = (n \<noteq> 0)"
| "truthy (Str s) = (s \<noteq> [])"
| "truthy (Arr xs) = True"
| "truthy (Obj kvs) = True"
| "truthy (DateObj v) = True"
| "truthy (Intrinsic n) = True"

fun isArray :: "jsval \<Rightarrow> bool" where
  "isArray (Arr xs) = True"
| "isArray v = False"

fun is_primitive :: "jsval \<Rightarrow> bool" where
  "is_primitive Undefined = True"
| "is_primitive Null = True"
| "is_primitive (Bool b) = True"
| "is_primitive (Num n) = True"
| "is_primitive (Str s) = True"
| "is_primitive v = False"

text \<open>
  \<open>a === b\<close>. Primitives are compared by value. Two objects are equal only when they are
  the same reference; every use in the source compares values that come from different
  places (a header and a secret, an update value and a literal), so no two of them are
  the same object.
\<close>

definition strict_equals :: "jsval \<Rightarrow> jsval \<Rightarrow> bool" where
  "strict_equals a b = (is_primitive a \<and> a = b)"

text \<open>
  The properties of \<open>Object.prototype\<close>, which a plain object answers for when it has
  no own property of that name. All of them are functions or objects, hence truthy.
\<close>

definition object_prototype_names :: "string list" where
  "object_prototype_names =
     [''constructor'', ''__proto__'', ''hasOwnProperty'', ''isPrototypeOf'',
      ''propertyIsEnumerable'', ''toLocaleString'', ''toString'', ''valueOf'',
      ''__defineGetter__'', ''__defineSetter__'', ''__lookupGetter__'',
      ''__lookupSetter__'']"

text \<open>
  \<open>o.k\<close> and \<open>o[k]\<close>, also as the source of a destructuring \<open>const { k } = o\<close>.
  Reading a property of \<open>null\<close> or \<open>undefined\<close> throws. A plain object answers with
  its own property, else with what it inherits from \<open>Object.prototype\<close>, else with
  \<open>undefined\<close>. For the other values the answer \<open>undefined\<close> is right for every name
  the source reads from them (folderName, images, imageName, publicUrl, collectionName,
  itemId, updates, fieldName, fileUrl, fileName, mediaId, context, fileInfo,
  authorization, auth): none is an index, \<open>length\<close> or the name of a built-in method.
\<close>

fun get_prop :: "jsval \<Rightarrow> string \<Rightarrow> error + jsval" where
  "get_prop Undefined k = Inl TypeError"
| "get_prop Null k = Inl TypeError"
| "get_prop (Obj kvs) k =
     (case map_of kvs k of
        Some v \<Rightarrow> Inr v
      | None \<Rightarrow> if k \<in> set object_prototype_names then Inr (Intrinsic k) else Inr Undefined)"
| "get_prop v k = Inr Undefined"

text \<open>\<open>o?.k\<close>: \<open>undefined\<close> when \<open>o\<close> is \<open>null\<close> or \<open>undefined\<close>.\<close>

definition get_prop_optional :: "jsval \<Rightarrow> string \<Rightarrow> jsval" where
  "get_prop_optional v k = (case get_prop v k of Inl e \<Rightarrow> Undefined | Inr w \<Rightarrow> w)"

section \<open>Strings\<close>

text \<open>\<open>s.startsWith(p)\<close> is \<^const>\<open>prefix\<close> \<open>p s\<close>.\<close>

definition startsWith :: "string \<Rightarrow> string \<Rightarrow> bool" where
  "startsWith s p = prefix p s"

text \<open>
  \<open>s.replace(p, r)\<close> with a string pattern replaces the first occurrence of \<open>p\<close>. The
  source only ever replaces by the empty string, so the \<open>$\<close> patterns of the
  replacement play no part.
\<close>

fun replace :: "string \<Rightarrow> string \<Rightarrow> string \<Rightarrow> string" where
  "replace [] p r = (if p = [] then r else [])"
| "replace (c # cs) p r =
     (if prefix p (c # cs) then r @ drop (length p) (c # cs) else c # replace cs p r)"

text \<open>
  \<open>s.split(sep)\<close> for a one-character separator. The result is never empty, so the
  first branch of the \<open>case\<close> is never taken.
\<close>

fun split :: "string \<Rightarrow> char \<Rightarrow> string list" where
  "split [] sep = [[]]"
| "split (c # cs) sep =
     (if c = sep then [] # split cs sep
      else (case split cs sep of
              [] \<Rightarrow> [[c]]
            | w # ws \<Rightarrow> (c # w) # ws))"

text \<open>
  \<open>v.split(sep)\<close> as a method call: only a string has the method. On \<open>null\<close> and
  \<open>undefined\<close> reading it throws, on every other value it is missing or (as an own
  property of a JSON object) not a function, and the call throws.
\<close>

fun split_of :: "jsval \<Rightarrow> char \<Rightarrow> error + string list" where
  "split_of (Str s) sep = Inr (split s sep)"
| "split_of v sep = Inl TypeError"

text \<open>
  \<open>s.toLowerCase()\<close> on the letters A to Z. Every other character is kept; the two
  characters beyond ASCII that JavaScript lowers to an ASCII letter give \<open>k\<close> and a
  dotted \<open>i\<close> followed by a combining mark, which occur in no name that
  \<open>getMimeType\<close> looks up.
\<close>

definition toLowerCase :: "string \<Rightarrow> string" where
  "toLowerCase s =
     map (\<lambda>c. case map_of (zip ''ABCDEFGHIJKLMNOPQRSTUVWXYZ'' ''abcdefghijklmnopqrstuvwxyz'') c of
                 Some l \<Rightarrow> l
               | None \<Rightarrow> c) s"

text \<open>Decimal digits of a number, for array indices as property names and for timestamps.\<close>

fun string_of_nat :: "nat \<Rightarrow> string" where
  "string_of_nat n =
     (if n < 10 then [''0123456789'' ! n]
      else string_of_nat (n div 10) @ [''0123456789'' ! (n mod 10)])"

declare string_of_nat.simps [simp del]

section \<open>Objects\<close>

text \<open>
  Creating or overwriting an own property; an existing property keeps its place and a new
  one goes to the end. (JavaScript lists the properties whose names are array indices
  first; nothing here depends on the order of an object that the program builds, which
  the facts below read through \<^const>\<open>map_of\<close>.)
\<close>

fun set_own :: "string \<Rightarrow> jsval \<Rightarrow> (string \<times> jsval) list \<Rightarrow> (string \<times> jsval) list" where
  "set_own k v [] = [(k, v)]"
| "set_own k v ((k', v') # ps) = (if k' = k then (k, v) # ps else (k', v') # set_own k v ps)"

text \<open>
  An object built by the program: its own properties, and whether an assignment to
  \<open>__proto__\<close> still reaches the setter of \<open>Object.prototype\<close>.
\<close>

record plain_object =
  own :: "(string \<times> jsval) list"
  proto_setter :: bool

definition empty_object :: plain_object where
  "empty_object = \<lparr>own = [], proto_setter = True\<rparr>"

text \<open>
  \<open>obj[k] = v\<close> on such an object. Every name but \<open>__proto__\<close> becomes an own
  property. \<open>__proto__\<close> is an accessor of \<open>Object.prototype\<close>: while the object has
  no own property of that name and the accessor is reachable through its prototype
  chain, the assignment calls the setter, which replaces the prototype when \<open>v\<close> is an
  object or \<open>null\<close> and does nothing for a primitive; no own property is created. After
  the prototype became \<open>null\<close>, or a JSON object that has an own property
  \<open>__proto__\<close>, the accessor is no longer found and the assignment creates an own
  property like any other.
\<close>

definition assign :: "plain_object \<Rightarrow> string \<Rightarrow> jsval \<Rightarrow> plain_object" where
  "assign obj k v =
     (if k = ''__proto__'' \<and> proto_setter obj \<and> map_of (own obj) k = None then
        (case v of
           Null \<Rightarrow> obj\<lparr>proto_setter := False\<rparr>
         | Obj kvs \<Rightarrow> obj\<lparr>proto_setter := (map_of kvs ''__proto__'' = None)\<rparr>
         | _ \<Rightarrow> obj)
      else obj\<lparr>own := set_own k v (own obj)\<rparr>)"

text \<open>
  The own enumerable string-keyed properties of a value: those of an object, the
  elements of an array and the characters of a string under their indices, none for
  anything else. The object spread \<open>{...a, ...b}\<close> copies them in turn into a fresh
  object, defining own properties (no setter is called); \<open>Object.entries\<close> lists them and
  throws on \<open>null\<close> and \<open>undefined\<close>.
\<close>

fun own_entries :: "jsval \<Rightarrow> (string \<times> jsval) list" where
  "own_entries (Obj kvs) = kvs"
| "own_entries (Arr xs) = zip (map string_of_nat [0..<length xs]) xs"
| "own_entries (Str s) = zip (map string_of_nat [0..<length s]) (map (\<lambda>c. Str [c]) s)"
| "own_entries v = []"

definition Object_entries :: "jsval \<Rightarrow> error + (string \<times> jsval) list" where
  "Object_entries v = (if v = Undefined \<or> v = Null then Inl TypeError else Inr (own_entries v))"

definition spread :: "jsval list \<Rightarrow> (string \<times> jsval) list" where
  "spread vs = foldl (\<lambda>m (k, v). set_own k v m) [] (concat (map own_entries vs))"

section \<open>The platform\<close>

text \<open>
  The calls a handler makes into the platform (every \<open>wixData\<close> call is made with
  \<open>{ suppressAuth: true }\<close>), and the lines it writes to the console.
\<close>

datatype call =
    getSecret string
  | wixData_get jsval jsval
  | wixData_update jsval jsval
  | wixData_replaceReferences jsval jsval jsval jsval
  | mediaManager_importFile string jsval jsval

datatype logarg = LogText string | LogValue jsval | LogError error

datatype console_line =
    console_log "logarg list"
  | console_info "logarg list"
  | console_warn "logarg list"
  | console_error "logarg list"

type_synonym history = "(call \<times> (error + jsval)) list"

text \<open>
  The environment of one invocation. \<open>respond\<close> is the platform: what a call resolves to
  (\<open>Inr\<close>) or rejects with (\<open>Inl\<close>), given every call made before and its result, so that
  the platform may keep any state. \<open>toString\<close> is the engine's conversion of a value to
  a string where the model does not spell it out, \<open>newDate\<close> is \<open>new Date(v)\<close>, both of
  which run the value's own conversion and may throw; \<open>now\<close> is \<open>Date.now()\<close>.
\<close>

record env =
  respond :: "history \<Rightarrow> call \<Rightarrow> error + jsval"
  toString :: "jsval \<Rightarrow> error + string"
  newDate :: "jsval \<Rightarrow> error + jsval"
  now :: "history \<Rightarrow> nat"

record state =
  trace :: history
  console :: "console_line list"

definition initial :: state where
  "initial = \<lparr>trace = [], console = []\<rparr>"

definition perform :: "env \<Rightarrow> call \<Rightarrow> state \<Rightarrow> (error + jsval) \<times> state" where
  "perform env c st =
     (respond env (trace st) c, st\<lparr>trace := trace st @ [(c, respond env (trace st) c)]\<rparr>)"

definition emit :: "console_line \<Rightarrow> state \<Rightarrow> state" where
  "emit l st = st\<lparr>console := console st @ [l]\<rparr>"

fun js_toString :: "env \<Rightarrow> jsval \<Rightarrow> error + string" where
  "js_toString env (Str s) = Inr s"
| "js_toString env Undefined = Inr ''undefined''"
| "js_toString env Null = Inr ''null''"
| "js_toString env (Bool b) = Inr (if b then ''true'' else ''false'')"
| "js_toString env v = toString env v"

text \<open>
  A template literal: its literal parts (\<open>Inl\<close>) and substitutions (\<open>Inr\<close>), converted
  from left to right.
\<close>

fun template :: "env \<Rightarrow> (string + jsval) list \<Rightarrow> error + string" where
  "template env [] = Inr []"
| "template env (Inl s # ps) =
     (case template env ps of Inl e \<Rightarrow> Inl e | Inr t \<Rightarrow> Inr (s @ t))"
| "template env (Inr v # ps) =
     (case js_toString env v of
        Inl e \<Rightarrow> Inl e
      | Inr s \<Rightarrow> (case template env ps of Inl e \<Rightarrow> Inl e | Inr t \<Rightarrow> Inr (s @ t)))"

text \<open>A request: its header object and what \<open>request.body.json()\<close> resolves to.\<close>

record request =
  headers :: jsval
  body :: "error + jsval"

text \<open>
  The responses the handlers build: \<open>ok\<close> with \<open>{ success: true }\<close> or with
  \<open>{ success: true, uploaded: [...] }\<close>, \<open>badRequest\<close> with
  \<open>{ error: "Not authorized" }\<close> or with \<open>{ error: err.message }\<close> for the error
  caught.
\<close>

datatype response =
    ok_success
  | ok_uploaded "jsval list"
  | badRequest_not_authorized
  | badRequest_error error

text \<open>
  What the \<open>catch\<close> block of a handler returns after it logged the error \<open>err\<close>:
  \<open>badRequest\<close> with \<open>{ error: err.message }\<close>. Reading \<open>err.message\<close> throws a
  \<open>TypeError\<close> when the value caught is \<open>null\<close> or \<open>undefined\<close>; that exception
  leaves the handler (\<open>Inl\<close>), which then returns no response.
\<close>

fun catch_response :: "error \<Rightarrow> error + response" where
  "catch_response (Rejected Undefined) = Inl TypeError"
| "catch_response (Rejected Null) = Inl TypeError"
| "catch_response err = Inr (badRequest_error err)"

section \<open>Authorization\<close>

text \<open>
  \<open>isPermitted\<close>, which each copy in the source writes with the same body; only the name
  of the secret differs (\<open>make_connector\<close> beside \<open>post_uploadImageToItem\<close>, \<open>my_secret\<close> beside
  \<open>post_updateItemField\<close>), so it is a parameter here. Everything the \<open>try\<close> block
  throws is logged and gives \<open>false\<close>.
\<close>

definition isPermitted :: "string \<Rightarrow> env \<Rightarrow> jsval \<Rightarrow> state \<Rightarrow> bool \<times> state" where
  "isPermitted secretName env hdrs st =
     (case get_prop hdrs ''authorization'' of
        Inl err \<Rightarrow>
          (False, emit (console_error [LogText ''Error in authorization check:'', LogError err]) st)
      | Inr authorization \<Rightarrow>
          (case (if truthy authorization then Inr authorization else get_prop hdrs ''auth'') of
             Inl err \<Rightarrow>
               (False, emit (console_error [LogText ''Error in authorization check:'', LogError err]) st)
           | Inr authHeader \<Rightarrow>
               (case perform env (getSecret secretName) st of
                  (Inl err, st') \<Rightarrow>
                    (False,
                     emit (console_error [LogText ''Error in authorization check:'', LogError err]) st')
                | (Inr sharedAuthKey, st') \<Rightarrow> (strict_equals authHeader sharedAuthKey, st'))))"

text \<open>
  The header value as the specification words it, for comparison: taken from
  \<open>authorization\<close>, or from \<open>auth\<close> when \<open>authorization\<close> is absent.
\<close>

definition header_value_as_specified :: "(string \<times> jsval) list \<Rightarrow> jsval" where
  "header_value_as_specified hs =
     (case map_of hs ''authorization'' of
        Some a \<Rightarrow> a
      | None \<Rightarrow> (case map_of hs ''auth'' of Some a \<Rightarrow> a | None \<Rightarrow> Undefined))"

section \<open>MIME types\<close>

definition mime_map :: jsval where
  "mime_map =
     Obj [(''jpg'', Str ''image/jpeg''),
          (''jpeg'', Str ''image/jpeg''),
          (''png'', Str ''image/png''),
          (''webp'', Str ''image/webp''),
          (''gif'', Str ''image/gif'')]"

text \<open>
  \<open>getMimeType(fileName)\<close>: \<open>map[ext] || 'image/jpeg'\<close> for the lower-cased text after
  the last dot. \<open>map\<close> is an object literal, so \<open>map[ext]\<close> also finds what the literal
  inherits.
\<close>

definition getMimeType :: "jsval \<Rightarrow> error + jsval" where
  "getMimeType fileName =
     (case split_of fileName CHR ''.'' of
        Inl e \<Rightarrow> Inl e
      | Inr parts \<Rightarrow>
          (case get_prop mime_map (toLowerCase (last parts)) of
             Inl e \<Rightarrow> Inl e
           | Inr m \<Rightarrow> Inr (if truthy m then m else Str ''image/jpeg'')))"

section \<open>Updating the fields of an item\<close>

text \<open>
  The callback of the \<open>reduce\<close> over \<open>Object.entries(updates)\<close>: the accumulator
  \<open>acc\<close>, and beside it the list \<open>multiRefUpdates\<close> the callback pushes to (pairs of
  \<open>fieldName\<close> and \<open>ids\<close>).
\<close>

fun reducer ::
  "env \<Rightarrow> plain_object \<times> (string \<times> jsval) list \<Rightarrow> string \<times> jsval \<Rightarrow>
   error + plain_object \<times> (string \<times> jsval) list" where
  "reducer env (acc, multiRefUpdates) (key, value) =
     (if startsWith key ''date_'' then
        (case newDate env value of
           Inl e \<Rightarrow> Inl e
         | Inr d \<Rightarrow> Inr (assign acc (replace key ''date_'' []) d, multiRefUpdates))
      else if startsWith key ''refs_'' then
        (if isArray value then
           Inr (acc, multiRefUpdates @ [(replace key ''refs_'' [], value)])
         else Inr (acc, multiRefUpdates))
      else if startsWith key ''safebool_'' then
        Inr (assign acc (replace key ''safebool_'' [])
               (Bool (strict_equals value (Bool True) \<or> strict_equals value (Str ''true'') \<or>
                      strict_equals value (Num 1) \<or> strict_equals value (Str ''1''))),
             multiRefUpdates)
      else Inr (assign acc key value, multiRefUpdates))"

fun reduce ::
  "env \<Rightarrow> (string \<times> jsval) list \<Rightarrow> plain_object \<times> (string \<times> jsval) list \<Rightarrow>
   error + plain_object \<times> (string \<times> jsval) list" where
  "reduce env [] a = Inr a"
| "reduce env (entry # entries) a =
     (case reducer env a entry of
        Inl e \<Rightarrow> Inl e
      | Inr a' \<Rightarrow> reduce env entries a')"

definition cleanedUpdates ::
  "env \<Rightarrow> (string \<times> jsval) list \<Rightarrow> error + plain_object \<times> (string \<times> jsval) list" where
  "cleanedUpdates env entries = reduce env entries (empty_object, [])"

text \<open>The loop over \<open>multiRefUpdates\<close>: one awaited call each, stopped by the first that rejects.\<close>

fun replaceReferences_loop ::
  "env \<Rightarrow> jsval \<Rightarrow> jsval \<Rightarrow> (string \<times> jsval) list \<Rightarrow> state \<Rightarrow> (error + unit) \<times> state" where
  "replaceReferences_loop env collectionName itemId [] st = (Inr (), st)"
| "replaceReferences_loop env collectionName itemId ((fieldName, ids) # rest) st =
     (case perform env (wixData_replaceReferences collectionName (Str fieldName) itemId ids) st of
        (Inl e, st') \<Rightarrow> (Inl e, st')
      | (Inr r, st') \<Rightarrow> replaceReferences_loop env collectionName itemId rest st')"

text \<open>From the fetched item on: merge, persist, then the deferred references.\<close>

definition update_existing ::
  "env \<Rightarrow> jsval \<Rightarrow> jsval \<Rightarrow> jsval \<Rightarrow> jsval \<Rightarrow> state \<Rightarrow> (error + unit) \<times> state" where
  "update_existing env collectionName itemId updates existingItem st =
     (case Object_entries updates of
        Inl e \<Rightarrow> (Inl e, st)
      | Inr entries \<Rightarrow>
          (case cleanedUpdates env entries of
             Inl e \<Rightarrow> (Inl e, st)
           | Inr (cleaned, multiRefUpdates) \<Rightarrow>
               (case perform env
                       (wixData_update collectionName
                          (Obj (spread [existingItem, Obj (own cleaned)]))) st of
                  (Inl e, st') \<Rightarrow> (Inl e, st')
                | (Inr r, st') \<Rightarrow>
                    replaceReferences_loop env collectionName itemId multiRefUpdates st')))"

text \<open>
  The \<open>try\<close> block of \<open>post_updateItemField\<close>. The handler itself follows: the
  authorization check, the \<open>try\<close> block, and the \<open>catch\<close> block, which logs and
  answers through \<^const>\<open>catch_response\<close>. \<open>Inl\<close> in its result is an exception that
  leaves the handler.
\<close>

definition updateItemField_try :: "env \<Rightarrow> request \<Rightarrow> state \<Rightarrow> (error + unit) \<times> state" where
  "updateItemField_try env req st =
     (case body req of
        Inl e \<Rightarrow> (Inl e, st)
      | Inr b \<Rightarrow>
          (case (get_prop b ''collectionName'', get_prop b ''itemId'', get_prop b ''updates'') of
             (Inr collectionName, Inr itemId, Inr updates) \<Rightarrow>
               if \<not> truthy collectionName \<or> \<not> truthy itemId \<or> \<not> truthy updates then
                 (Inl (Error ''Missing required fields: collectionName, itemId, or updates''), st)
               else
                 (case perform env (wixData_get collectionName itemId) st of
                    (Inl e, st') \<Rightarrow> (Inl e, st')
                  | (Inr existingItem, st') \<Rightarrow>
                      if \<not> truthy existingItem then
                        (case template env
                                [Inl ''Item with ID '', Inr itemId,
                                 Inl '' not found in collection '', Inr collectionName] of
                           Inl e \<Rightarrow> (Inl e, st')
                         | Inr msg \<Rightarrow> (Inl (Error msg), st'))
                      else update_existing env collectionName itemId updates existingItem st')
           | _ \<Rightarrow> (Inl TypeError, st)))"

definition post_updateItemField :: "env \<Rightarrow> request \<Rightarrow> (error + response) \<times> state" where
  "post_updateItemField env req =
     (case isPermitted ''my_secret'' env (headers req) initial of
        (False, st) \<Rightarrow> (Inr badRequest_not_authorized, st)
      | (True, st) \<Rightarrow>
          (case updateItemField_try env req st of
             (Inl err, st') \<Rightarrow>
               (catch_response err,
                emit (console_error [LogText ''Error updating item:'', LogError err]) st')
           | (Inr u, st') \<Rightarrow> (Inr ok_success, st')))"

section \<open>Importing images\<close>

text \<open>
  \<open>url.split('/').pop() || `image-${Date.now()}.jpg`\<close>: the last segment of the URL,
  or a name made from the clock when that segment is empty.
\<close>

definition fileName_from_url :: "env \<Rightarrow> jsval \<Rightarrow> state \<Rightarrow> error + jsval" where
  "fileName_from_url env url st =
     (case split_of url CHR ''/'' of
        Inl e \<Rightarrow> Inl e
      | Inr parts \<Rightarrow>
          Inr (if last parts \<noteq> [] then Str (last parts)
               else Str (''image-'' @ string_of_nat (now env (trace st)) @ ''.jpg'')))"

text \<open>
  The body of the loop of \<open>post_imageBulkUploader\<close> for one \<open>image\<close> (here \<open>img\<close>): \<open>Inr None\<close> is
  \<open>continue\<close>, \<open>Inr (Some r)\<close> is the result pushed to \<open>uploadedResults\<close>, \<open>Inl\<close> is
  what the body throws.
\<close>

definition upload_image ::
  "env \<Rightarrow> jsval \<Rightarrow> jsval \<Rightarrow> state \<Rightarrow> (error + jsval option) \<times> state" where
  "upload_image env folderName img st =
     (case (get_prop img ''imageName'', get_prop img ''publicUrl'') of
        (Inr imageName, Inr publicUrl) \<Rightarrow>
          if \<not> truthy publicUrl then
            (Inr None, emit (console_warn [LogText ''Skipping image without publicUrl'']) st)
          else
            (case (if truthy imageName then Inr imageName
                   else fileName_from_url env publicUrl st) of
               Inl e \<Rightarrow> (Inl e, st)
             | Inr fileName \<Rightarrow>
                 (case getMimeType fileName of
                    Inl e \<Rightarrow> (Inl e, st)
                  | Inr mimeType \<Rightarrow>
                      (case template env [Inl ''/'', Inr folderName] of
                         Inl e \<Rightarrow> (Inl e, st)
                       | Inr path \<Rightarrow>
                           (case perform env
                                   (mediaManager_importFile path publicUrl
                                      (Obj [(''mediaOptions'',
                                               Obj [(''mimeType'', mimeType),
                                                    (''mediaType'', Str ''image'')]),
                                            (''metadataOptions'',
                                               Obj [(''isPrivate'', Bool False),
                                                    (''isVisitorUpload'', Bool False)])])) st of
                              (Inl e, st') \<Rightarrow> (Inl e, st')
                            | (Inr importResult, st') \<Rightarrow>
                                (case (get_prop importResult ''fileUrl'',
                                       get_prop importResult ''fileName'',
                                       get_prop importResult ''mediaId'') of
                                   (Inr fileUrl, Inr fileName', Inr mediaId) \<Rightarrow>
                                     (Inr (Some (Obj [(''originalUrl'', publicUrl),
                                                      (''fileUrl'', fileUrl),
                                                      (''fileName'', fileName'),
                                                      (''mediaId'', mediaId)])), st')
                                 | _ \<Rightarrow> (Inl TypeError, st'))))))
      | _ \<Rightarrow> (Inl TypeError, st))"

fun upload_images ::
  "env \<Rightarrow> jsval \<Rightarrow> jsval list \<Rightarrow> jsval list \<Rightarrow> state \<Rightarrow> (error + jsval list) \<times> state" where
  "upload_images env folderName [] uploadedResults st = (Inr uploadedResults, st)"
| "upload_images env folderName (img # images) uploadedResults st =
     (case upload_image env folderName img st of
        (Inl e, st') \<Rightarrow> (Inl e, st')
      | (Inr None, st') \<Rightarrow> upload_images env folderName images uploadedResults st'
      | (Inr (Some r), st') \<Rightarrow> upload_images env folderName images (uploadedResults @ [r]) st')"

text \<open>The \<open>try\<close> block of \<open>post_imageBulkUploader\<close>.\<close>

definition imageBulkUploader_try ::
  "env \<Rightarrow> request \<Rightarrow> state \<Rightarrow> (error + jsval list) \<times> state" where
  "imageBulkUploader_try env req st =
     (case body req of
        Inl e \<Rightarrow> (Inl e, st)
      | Inr b \<Rightarrow>
          (case (get_prop b ''folderName'', get_prop b ''images'') of
             (Inr folderName, Inr images) \<Rightarrow>
               (case images of
                  Arr imgs \<Rightarrow>
                    if \<not> truthy folderName then
                      (Inl (Error ''Missing or invalid 'folderName' or 'images' array''), st)
                    else upload_images env folderName imgs [] st
                | _ \<Rightarrow> (Inl (Error ''Missing or invalid 'folderName' or 'images' array''), st))
           | _ \<Rightarrow> (Inl TypeError, st)))"

text \<open>
  \<open>post_imageBulkUploader\<close>. Its file does not define \<open>isPermitted\<close>; it points to the
  one beside \<open>post_updateItemField\<close>.
\<close>

definition post_imageBulkUploader :: "env \<Rightarrow> request \<Rightarrow> (error + response) \<times> state" where
  "post_imageBulkUploader env req =
     (case isPermitted ''my_secret'' env (headers req) initial of
        (False, st) \<Rightarrow> (Inr badRequest_not_authorized, st)
      | (True, st) \<Rightarrow>
          (case imageBulkUploader_try env req st of
             (Inl err, st') \<Rightarrow>
               (catch_response err,
                emit (console_error [LogText ''Image upload error:'', LogError err]) st')
           | (Inr uploadedResults, st') \<Rightarrow> (Inr (ok_uploaded uploadedResults), st')))"

text \<open>
  The body of the loop of \<open>post_uploadImageToItem\<close> for one \<open>image_\<close> key: the import is
  requested with the collection, the item and the field as its context.
\<close>

definition import_for_field ::
  "env \<Rightarrow> jsval \<Rightarrow> jsval \<Rightarrow> string \<Rightarrow> jsval \<Rightarrow> state \<Rightarrow> (error + unit) \<times> state" where
  "import_for_field env collectionName itemId key value st =
     (case fileName_from_url env value st of
        Inl e \<Rightarrow> (Inl e, st)
      | Inr fileName \<Rightarrow>
          (case getMimeType fileName of
             Inl e \<Rightarrow> (Inl e, st)
           | Inr mimeType \<Rightarrow>
               (case (template env [Inl ''/'', Inr collectionName],
                      template env [Inr collectionName], template env [Inr itemId]) of
                  (Inr path, Inr c, Inr i) \<Rightarrow>
                    (case perform env
                            (mediaManager_importFile path value
                               (Obj [(''mediaOptions'',
                                        Obj [(''mimeType'', mimeType),
                                             (''mediaType'', Str ''image'')]),
                                     (''metadataOptions'',
                                        Obj [(''isPrivate'', Bool False),
                                             (''isVisitorUpload'', Bool False),
                                             (''context'',
                                                Obj [(''collectionName'', Str c),
                                                     (''itemId'', Str i),
                                                     (''fieldName'',
                                                        Str (replace key ''image_'' []))])])])) st of
                       (Inl e, st') \<Rightarrow> (Inl e, st')
                     | (Inr importResult, st') \<Rightarrow>
                         (Inr (), emit (console_log [LogValue importResult]) st'))
                | (Inl e, _, _) \<Rightarrow> (Inl e, st)
                | (_, Inl e, _) \<Rightarrow> (Inl e, st)
                | (_, _, Inl e) \<Rightarrow> (Inl e, st))))"

fun import_loop ::
  "env \<Rightarrow> jsval \<Rightarrow> jsval \<Rightarrow> (string \<times> jsval) list \<Rightarrow> state \<Rightarrow> (error + unit) \<times> state" where
  "import_loop env collectionName itemId [] st = (Inr (), st)"
| "import_loop env collectionName itemId ((key, value) # entries) st =
     (if startsWith key ''image_'' then
        (case import_for_field env collectionName itemId key value st of
           (Inl e, st') \<Rightarrow> (Inl e, st')
         | (Inr u, st') \<Rightarrow> import_loop env collectionName itemId entries st')
      else import_loop env collectionName itemId entries st)"

text \<open>The \<open>try\<close> block of \<open>post_uploadImageToItem\<close>.\<close>

definition uploadImageToItem_try :: "env \<Rightarrow> request \<Rightarrow> state \<Rightarrow> (error + unit) \<times> state" where
  "uploadImageToItem_try env req st =
     (case body req of
        Inl e \<Rightarrow> (Inl e, st)
      | Inr b \<Rightarrow>
          (case (get_prop b ''collectionName'', get_prop b ''itemId'', get_prop b ''updates'') of
             (Inr collectionName, Inr itemId, Inr updates) \<Rightarrow>
               if \<not> truthy collectionName \<or> \<not> truthy itemId \<or> \<not> truthy updates then
                 (Inl (Error ''Missing required fields: collectionName, itemId, or updates''), st)
               else
                 (case Object_entries updates of
                    Inl e \<Rightarrow> (Inl e, st)
                  | Inr entries \<Rightarrow> import_loop env collectionName itemId entries st)
           | _ \<Rightarrow> (Inl TypeError, st)))"

definition post_uploadImageToItem :: "env \<Rightarrow> request \<Rightarrow> (error + response) \<times> state" where
  "post_uploadImageToItem env req =
     (case isPermitted ''make_connector'' env (headers req) initial of
        (False, st) \<Rightarrow> (Inr badRequest_not_authorized, st)
      | (True, st) \<Rightarrow>
          (case uploadImageToItem_try env req st of
             (Inl err, st') \<Rightarrow>
               (catch_response err,
                emit (console_error [LogText ''Image upload error:'', LogError err]) st')
           | (Inr u, st') \<Rightarrow> (Inr ok_success, st')))"

text \<open>
  The imports that a trace requested, in order: the URL of each, and the field name in
  the context attached to it (\<open>undefined\<close> when none is attached).
\<close>

definition requested_imports :: "history \<Rightarrow> (jsval \<times> jsval) list" where
  "requested_imports h =
     concat (map (\<lambda>(cl, r).
        case cl of
          mediaManager_importFile path url options \<Rightarrow>
            [(url,
              get_prop_optional
                (get_prop_optional (get_prop_optional options ''metadataOptions'') ''context'')
                ''fieldName'')]
        | _ \<Rightarrow> []) h)"

section \<open>The upload-completion callback\<close>

text \<open>
  \<open>item[fieldName] = v\<close> on the item that \<open>wixData.get\<close> resolved to. It throws on
  \<open>null\<close> and \<open>undefined\<close>, and (module code is strict) on a primitive. An item is a
  plain object, on which the assignment is \<^const>\<open>assign\<close>. Arrays, dates and built-in
  objects accept the assignment; the model has no place for the property and leaves
  them as they are.
\<close>

definition assign_item :: "env \<Rightarrow> jsval \<Rightarrow> jsval \<Rightarrow> jsval \<Rightarrow> error + jsval" where
  "assign_item env item fieldName v =
     (if item = Undefined \<or> item = Null then Inl TypeError
      else
        (case js_toString env fieldName of
           Inl e \<Rightarrow> Inl e
         | Inr k \<Rightarrow>
             (case item of
                Obj kvs \<Rightarrow> Inr (Obj (own (assign \<lparr>own = kvs, proto_setter = True\<rparr> k v)))
              | Bool b \<Rightarrow> Inl TypeError
              | Num n \<Rightarrow> Inl TypeError
              | Str s \<Rightarrow> Inl TypeError
              | _ \<Rightarrow> Inr item)))"

text \<open>
  The promise chain \<open>wixData.get(...).then(...).then(...).catch(...)\<close>, in the order in
  which its steps run. Whatever a step rejects or throws with reaches the \<open>catch\<close>,
  which logs it; nothing leaves the chain.
\<close>

definition write_back ::
  "env \<Rightarrow> jsval \<Rightarrow> jsval \<Rightarrow> jsval \<Rightarrow> jsval \<Rightarrow> state \<Rightarrow> state" where
  "write_back env collectionName itemId fieldName fileInfo st =
     (case perform env (wixData_get collectionName itemId) st of
        (Inl err, st1) \<Rightarrow>
          emit (console_error [LogText ''Failed to update image field on item:'', LogError err]) st1
      | (Inr item, st1) \<Rightarrow>
          (case assign_item env item fieldName (get_prop_optional fileInfo ''fileUrl'') of
             Inl err \<Rightarrow>
               emit (console_error [LogText ''Failed to update image field on item:'', LogError err])
                 st1
           | Inr item' \<Rightarrow>
               (case perform env (wixData_update collectionName item')
                       (emit (console_log [LogValue fileInfo,
                                           LogValue (get_prop_optional fileInfo ''fileUrl'')]) st1) of
                  (Inl err, st2) \<Rightarrow>
                    emit (console_error
                            [LogText ''Failed to update image field on item:'', LogError err]) st2
                | (Inr r, st2) \<Rightarrow>
                    (case template env
                            [Inl (''Image field '' @ [CHR 0x22]), Inr fieldName,
                             Inl (CHR 0x22 # '' updated for item ''),
                             Inr itemId, Inl '' in '', Inr collectionName] of
                       Inl err \<Rightarrow>
                         emit (console_error
                                 [LogText ''Failed to update image field on item:'', LogError err]) st2
                     | Inr msg \<Rightarrow> emit (console_log [LogText msg]) st2))))"

text \<open>
  \<open>wixMediaManager_onFileUploaded\<close> as \<open>uploadImageToItem.js\<close> has it: the guard reads
  the context through \<open>context?.\<close>, and only then destructures it. \<open>Inl\<close> is an
  exception that leaves the function.
\<close>

definition wixMediaManager_onFileUploaded :: "env \<Rightarrow> jsval \<Rightarrow> (error + unit) \<times> state" where
  "wixMediaManager_onFileUploaded env event =
     (case (get_prop event ''context'', get_prop event ''fileInfo'') of
        (Inr ctx, Inr fileInfo) \<Rightarrow>
          if truthy (get_prop_optional ctx ''collectionName'') \<and>
             truthy (get_prop_optional ctx ''itemId'') \<and>
             truthy (get_prop_optional ctx ''fieldName'') \<and>
             truthy (get_prop_optional fileInfo ''fileUrl'')
          then
            (Inr (),
             write_back env (get_prop_optional ctx ''collectionName'')
               (get_prop_optional ctx ''itemId'') (get_prop_optional ctx ''fieldName'')
               fileInfo initial)
          else
            (Inr (),
             emit (console_info
                     [LogText ''onFileUploaded skipped: Missing context or fileUrl'',
                      LogValue (Obj [(''context'', ctx), (''fileInfo'', fileInfo)])]) initial)
      | _ \<Rightarrow> (Inl TypeError, initial))"

text \<open>
  The same callback as the copy of the file in \<open>src/unnamed/part_000\<close> has it: the
  context is destructured before the guard.
\<close>

definition wixMediaManager_onFileUploaded_part_000 ::
  "env \<Rightarrow> jsval \<Rightarrow> (error + unit) \<times> state" where
  "wixMediaManager_onFileUploaded_part_000 env event =
     (case (get_prop event ''context'', get_prop event ''fileInfo'') of
        (Inr ctx, Inr fileInfo) \<Rightarrow>
          (case (get_prop ctx ''collectionName'', get_prop ctx ''itemId'',
                 get_prop ctx ''fieldName'') of
             (Inr collectionName, Inr itemId, Inr fieldName) \<Rightarrow>
               if truthy collectionName \<and> truthy itemId \<and> truthy fieldName \<and>
                  truthy (get_prop_optional fileInfo ''fileUrl'')
               then (Inr (), write_back env collectionName itemId fieldName fileInfo initial)
               else
                 (Inr (),
                  emit (console_warn
                          [LogText ''Missing context or fileUrl in upload event:'',
                           LogValue event]) initial)
           | _ \<Rightarrow> (Inl TypeError, initial))
      | _ \<Rightarrow> (Inl TypeError, initial))"

section \<open>A sample platform\<close>

text \<open>
  A platform on which every call succeeds: the secret is \<open>s3cret\<close>, every item exists
  and has a title, an import yields a file URL, a file name and a media id.
\<close>

definition sample_respond :: "history \<Rightarrow> call \<Rightarrow> error + jsval" where
  "sample_respond h c =
     (case c of
        getSecret n \<Rightarrow> Inr (Str ''s3cret'')
      | wixData_get collectionName itemId \<Rightarrow>
          Inr (Obj [(''_id'', itemId), (''title'', Str ''Old title'')])
      | wixData_update collectionName item \<Rightarrow> Inr item
      | wixData_replaceReferences collectionName fieldName itemId ids \<Rightarrow> Inr Undefined
      | mediaManager_importFile path url options \<Rightarrow>
          Inr (Obj [(''fileUrl'', Str ''wix:image://v1/abc''),
                    (''fileName'', Str ''abc''),
                    (''mediaId'', Str ''m1'')]))"

definition sample_env :: env where
  "sample_env =
     \<lparr>respond = sample_respond,
      toString = (\<lambda>v. Inr ''[object Object]''),
      newDate = (\<lambda>v. Inr (DateObj v)),
      now = (\<lambda>h. 0)\<rparr>"

text \<open>
  A platform on which two calls fail: replacing the references of the field
  \<open>authors\<close> rejects with an error, and the import of one URL rejects with
  \<open>undefined\<close>. Everything else is as on the sample platform.
\<close>

definition failing_respond :: "history \<Rightarrow> call \<Rightarrow> error + jsval" where
  "failing_respond h c =
     (case c of
        wixData_replaceReferences collectionName fieldName itemId ids \<Rightarrow>
          if fieldName = Str ''authors'' then Inl (Error ''WDE0025'') else Inr Undefined
      | mediaManager_importFile path url options \<Rightarrow>
          if url = Str ''https://example.com/broken.png'' then Inl (Rejected Undefined)
          else sample_respond h c
      | _ \<Rightarrow> sample_respond h c)"

definition failing_env :: env where
  "failing_env = sample_env\<lparr>respond := failing_respond\<rparr>"

text \<open>
  Requests of an authorized caller: for \<open>post_updateItemField\<close> and
  \<open>post_uploadImageToItem\<close> with the given \<open>updates\<close> for item \<open>item-1\<close> of the
  collection \<open>Items\<close>, and for \<open>post_imageBulkUploader\<close> with the given images for the
  folder \<open>uploads\<close>.
\<close>

definition sample_update_request :: "(string \<times> jsval) list \<Rightarrow> request" where
  "sample_update_request us =
     \<lparr>headers = Obj [(''auth'', Str ''s3cret'')],
      body = Inr (Obj [(''collectionName'', Str ''Items''),
                       (''itemId'', Str ''item-1''),
                       (''updates'', Obj us)])\<rparr>"

definition sample_bulk_request :: "jsval list \<Rightarrow> request" where
  "sample_bulk_request imgs =
     \<lparr>headers = Obj [(''auth'', Str ''s3cret'')],
      body = Inr (Obj [(''folderName'', Str ''uploads''), (''images'', Arr imgs)])\<rparr>"

section \<open>Strings: facts\<close>

lemma replace_prefix: "prefix p s \<Longrightarrow> replace s p r = r @ drop (length p) s"
  by (cases s) auto

lemma split_no_sep: "sep \<notin> set s \<Longrightarrow> split s sep = [s]"
  by (induction s) auto

lemma split_not_Nil: "split s sep \<noteq> []"
  by (induction s) (auto split: list.splits)

lemma length_split_append: "1 < length (split (stem @ sep # ext) sep)"
  by (induction stem) (auto simp: split_not_Nil split: list.splits)

lemma last_split_append:
  "sep \<notin> set ext \<Longrightarrow> last (split (stem @ sep # ext) sep) = ext"
proof (induction stem)
  case Nil
  then show ?case by (simp add: split_no_sep)
next
  case (Cons a stem)
  have "1 < length (split (stem @ sep # ext) sep)" by (rule length_split_append)
  with Cons show ?case by (auto split: list.splits)
qed

section \<open>Objects: facts\<close>

lemma map_of_set_own: "map_of (set_own k v ps) = (map_of ps)(k \<mapsto> v)"
  by (induction ps) auto

lemma fst_set_own: "fst ` set (set_own k v ps) = insert k (fst ` set ps)"
  by (simp add: dom_map_of_conv_image_fst [symmetric] map_of_set_own)

lemma distinct_set_own: "distinct (map fst ps) \<Longrightarrow> distinct (map fst (set_own k v ps))"
  by (induction ps) (auto simp: fst_set_own)

lemma own_assign_other: "k \<noteq> t \<Longrightarrow> map_of (own (assign obj k v)) t = map_of (own obj) t"
  by (auto simp: assign_def map_of_set_own split: jsval.splits)

lemma own_assign_same:
  "k \<noteq> ''__proto__'' \<Longrightarrow> map_of (own (assign obj k v)) k = Some v"
  by (simp add: assign_def map_of_set_own)

lemma distinct_assign:
  "distinct (map fst (own obj)) \<Longrightarrow> distinct (map fst (own (assign obj k v)))"
  by (auto simp: assign_def distinct_set_own split: jsval.splits)

lemma map_of_foldl_set_own:
  "map_of (foldl (\<lambda>m (k, v). set_own k v m) m kvs) = map_of m ++ map_of (rev kvs)"
  by (induction kvs arbitrary: m) (auto simp: map_of_set_own)

lemma map_of_spread2:
  "map_of (spread [a, b]) = map_of (rev (own_entries a)) ++ map_of (rev (own_entries b))"
  by (simp add: spread_def map_of_foldl_set_own)

lemma map_of_rev_distinct: "distinct (map fst ps) \<Longrightarrow> map_of (rev ps) = map_of ps"
  by (rule map_of_inject_set [THEN iffD2]) (simp_all add: rev_map [symmetric] del: rev_map)

lemma map_of_rev_None: "map_of (rev ps) k = None \<longleftrightarrow> map_of ps k = None"
  by (simp add: map_of_eq_None_iff)

section \<open>The reducer: facts\<close>

lemma reducer_refs:
  "reducer env (acc, m) (''refs_'' @ k, v) = Inr (acc, if isArray v then m @ [(k, v)] else m)"
  by (simp add: startsWith_def replace_prefix)

lemma strict_equals_primitive: "is_primitive b \<Longrightarrow> strict_equals a b = (a = b)"
  by (auto simp: strict_equals_def)

lemma reducer_safebool:
  "reducer env (acc, m) (''safebool_'' @ k, v) =
     Inr (assign acc k (Bool (v = Bool True \<or> v = Str ''true'' \<or> v = Num 1 \<or> v = Str ''1'')), m)"
  by (simp add: startsWith_def replace_prefix strict_equals_primitive)

lemma reducer_refs_list:
  "reducer env (acc, m) e =
     (case reducer env (acc, []) e of Inl err \<Rightarrow> Inl err | Inr (acc', x) \<Rightarrow> Inr (acc', m @ x))"
  by (cases e) (auto split: sum.splits)

lemma reduce_append:
  "reduce env (xs @ ys) a =
     (case reduce env xs a of Inl err \<Rightarrow> Inl err | Inr a' \<Rightarrow> reduce env ys a')"
  by (induction xs arbitrary: a) (auto split: sum.splits)

lemma reduce_refs_list:
  "reduce env es (acc, m) =
     (case reduce env es (acc, []) of Inl err \<Rightarrow> Inl err | Inr (acc', x) \<Rightarrow> Inr (acc', m @ x))"
proof (induction es arbitrary: acc m)
  case Nil
  show ?case by simp
next
  case (Cons e es)
  show ?case
  proof (cases "reducer env (acc, []) e")
    case (Inl err)
    then show ?thesis using reducer_refs_list [of env acc m e] by simp
  next
    case (Inr p)
    obtain acc1 x1 where p: "p = (acc1, x1)" by (cases p)
    have step: "reducer env (acc, m) e = Inr (acc1, m @ x1)"
      using reducer_refs_list [of env acc m e] Inr p by simp
    show ?thesis
      using Inr p step Cons.IH [of acc1 "m @ x1"] Cons.IH [of acc1 x1]
      by (auto split: sum.splits)
  qed
qed


lemma startsWith_split: "startsWith k p \<Longrightarrow> k = p @ replace k p []"
  by (auto simp: startsWith_def replace_prefix prefix_def)

lemma reducer_frame:
  assumes "reducer env (acc, m) (k', v') = Inr (acc', m')"
    and "k' \<noteq> ''date_'' @ t" and "k' \<noteq> ''safebool_'' @ t"
    and "k' = t \<longrightarrow> startsWith t ''date_'' \<or> startsWith t ''refs_'' \<or> startsWith t ''safebool_''"
  shows "map_of (own acc') t = map_of (own acc) t"
proof -
  have d: "startsWith k' ''date_'' \<Longrightarrow> replace k' ''date_'' [] \<noteq> t"
    using assms(2) startsWith_split [of k' "''date_''"] by auto
  have s: "startsWith k' ''safebool_'' \<Longrightarrow> replace k' ''safebool_'' [] \<noteq> t"
    using assms(3) startsWith_split [of k' "''safebool_''"] by auto
  have p: "\<not> startsWith k' ''date_'' \<Longrightarrow> \<not> startsWith k' ''refs_'' \<Longrightarrow>
           \<not> startsWith k' ''safebool_'' \<Longrightarrow> k' \<noteq> t"
    using assms(4) by auto
  show ?thesis
    using assms(1) d s p
    by (auto simp: own_assign_other split: if_splits sum.splits)
qed

lemma reduce_frame:
  assumes "reduce env es (acc, m) = Inr (acc', m')"
    and "\<forall>(k', v') \<in> set es. k' \<noteq> ''date_'' @ t \<and> k' \<noteq> ''safebool_'' @ t \<and>
           (k' = t \<longrightarrow> startsWith t ''date_'' \<or> startsWith t ''refs_'' \<or> startsWith t ''safebool_'')"
  shows "map_of (own acc') t = map_of (own acc) t"
  using assms
proof (induction es arbitrary: acc m)
  case Nil
  then show ?case by simp
next
  case (Cons e es)
  obtain k' v' where e: "e = (k', v')" by (cases e)
  from Cons.prems(1) obtain acc1 m1 where
    step: "reducer env (acc, m) (k', v') = Inr (acc1, m1)" and
    rest: "reduce env es (acc1, m1) = Inr (acc', m')"
    by (auto simp: e split: sum.splits)
  have "map_of (own acc1) t = map_of (own acc) t"
    using step Cons.prems(2) by (intro reducer_frame [OF step]) (auto simp: e)
  moreover have "map_of (own acc') t = map_of (own acc1) t"
    using rest Cons.prems(2) by (intro Cons.IH) auto
  ultimately show ?case by simp
qed

lemma reducer_distinct:
  "reducer env (acc, m) e = Inr (acc', m') \<Longrightarrow> distinct (map fst (own acc)) \<Longrightarrow>
   distinct (map fst (own acc'))"
  by (cases e) (auto simp: distinct_assign split: if_splits sum.splits)

lemma reduce_distinct:
  "reduce env es (acc, m) = Inr (acc', m') \<Longrightarrow> distinct (map fst (own acc)) \<Longrightarrow>
   distinct (map fst (own acc'))"
proof (induction es arbitrary: acc m)
  case Nil
  then show ?case by simp
next
  case (Cons e es)
  from Cons.prems(1) obtain acc1 m1 where
    step: "reducer env (acc, m) e = Inr (acc1, m1)" and
    rest: "reduce env es (acc1, m1) = Inr (acc', m')"
    by (auto split: sum.splits)
  from reducer_distinct [OF step Cons.prems(2)] Cons.IH [OF rest] show ?case by simp
qed

lemma reduce_refs_entry:
  "reduce env (pre @ (''refs_'' @ k, v) # post) (acc, m) =
     (case reduce env pre (acc, m) of
        Inl err \<Rightarrow> Inl err
      | Inr (a1, m1) \<Rightarrow> reduce env post (a1, if isArray v then m1 @ [(k, v)] else m1))"
  by (auto simp: reduce_append reducer_refs simp del: append.simps reducer.simps split: sum.splits)

lemma reduce_without_refs_entry:
  "reduce env (pre @ (''refs_'' @ k, v) # post) (acc, m) = Inr (acc', m') \<Longrightarrow>
   \<exists>m1 m2. reduce env (pre @ post) (acc, m) = Inr (acc', m1 @ m2) \<and>
           m' = m1 @ (if isArray v then [(k, v)] else []) @ m2"
proof -
  assume a: "reduce env (pre @ (''refs_'' @ k, v) # post) (acc, m) = Inr (acc', m')"
  from a [unfolded reduce_refs_entry] obtain a1 m1 where
    p: "reduce env pre (acc, m) = Inr (a1, m1)" and
    q: "reduce env post (a1, if isArray v then m1 @ [(k, v)] else m1) = Inr (acc', m')"
    by (auto split: sum.splits)
  from q obtain x where
    x: "reduce env post (a1, []) = Inr (acc', x)" and
    m': "m' = (if isArray v then m1 @ [(k, v)] else m1) @ x"
    using reduce_refs_list [of env post a1 "if isArray v then m1 @ [(k, v)] else m1"]
    by (auto split: sum.splits)
  have "reduce env post (a1, m1) = Inr (acc', m1 @ x)"
    using reduce_refs_list [of env post a1 m1] x by simp
  then have "reduce env (pre @ post) (acc, m) = Inr (acc', m1 @ x)"
    using p by (simp add: reduce_append)
  with m' show ?thesis by auto
qed


section \<open>Traces: facts\<close>

lemma catch_response_cases:
  "catch_response err = Inl TypeError \<or> catch_response err = Inr (badRequest_error err)"
  by (cases err rule: catch_response.cases) auto

lemma catch_response_not_ok [simp]:
  "catch_response err \<noteq> Inr ok_success" "catch_response err \<noteq> Inr (ok_uploaded rs)"
  using catch_response_cases [of err] by auto

lemma trace_emit [simp]: "trace (emit l st) = trace st"
  by (simp add: emit_def)

lemma trace_perform: "trace (snd (perform env c st)) = trace st @ [(c, fst (perform env c st))]"
  by (simp add: perform_def)

lemma perform_cases:
  obtains r st' where "perform env c st = (r, st')" "trace st' = trace st @ [(c, r)]"
  by (simp add: perform_def)

lemma isPermitted_trace:
  "trace (snd (isPermitted n env h st)) = trace st \<or>
   (\<exists>r. trace (snd (isPermitted n env h st)) = trace st @ [(getSecret n, r)])"
  by (auto simp: isPermitted_def perform_def split: sum.splits if_splits)

lemma loop_extends:
  "\<exists>ext. trace (snd (replaceReferences_loop env cn i refs st)) = trace st @ ext \<and>
         (\<forall>(cl, r) \<in> set ext. \<exists>f ids. cl = wixData_replaceReferences cn (Str f) i ids)"
proof (induction refs arbitrary: st)
  case Nil
  show ?case by simp
next
  case (Cons ref refs)
  obtain f ids where ref: "ref = (f, ids)" by (cases ref)
  obtain r st' where p: "perform env (wixData_replaceReferences cn (Str f) i ids) st = (r, st')"
    and t: "trace st' = trace st @ [(wixData_replaceReferences cn (Str f) i ids, r)]"
    by (rule perform_cases)
  show ?case
  proof (cases r)
    case (Inl e)
    then show ?thesis using p t by (simp add: ref)
  next
    case (Inr w)
    from Cons.IH [of st'] obtain ext where
      "trace (snd (replaceReferences_loop env cn i refs st')) = trace st' @ ext"
      "\<forall>(cl, r) \<in> set ext. \<exists>f ids. cl = wixData_replaceReferences cn (Str f) i ids"
      by blast
    then show ?thesis using p t Inr
      by (intro exI [of _ "(wixData_replaceReferences cn (Str f) i ids, r) # ext"]) (simp add: ref)
  qed
qed

lemma loop_success:
  "replaceReferences_loop env cn i (xs @ (k, ids) # ys) st = (Inr u, st') \<Longrightarrow>
   \<exists>between rr rest.
     trace st' = trace st @ between @ [(wixData_replaceReferences cn (Str k) i ids, Inr rr)] @ rest"
proof (induction xs arbitrary: st)
  case Nil
  obtain r st1 where p: "perform env (wixData_replaceReferences cn (Str k) i ids) st = (r, st1)"
    and t: "trace st1 = trace st @ [(wixData_replaceReferences cn (Str k) i ids, r)]"
    by (rule perform_cases)
  from Nil p obtain rr where r: "r = Inr rr" and
    rest: "replaceReferences_loop env cn i ys st1 = (Inr u, st')"
    by (auto split: sum.splits)
  from loop_extends [of env cn i ys st1] rest obtain ext where "trace st' = trace st1 @ ext"
    by auto
  with t r show ?case by (intro exI [of _ "[]"]) auto
next
  case (Cons x xs)
  obtain f ids' where x: "x = (f, ids')" by (cases x)
  obtain r st1 where p: "perform env (wixData_replaceReferences cn (Str f) i ids') st = (r, st1)"
    and t: "trace st1 = trace st @ [(wixData_replaceReferences cn (Str f) i ids', r)]"
    by (rule perform_cases)
  from Cons.prems p have
    rest: "replaceReferences_loop env cn i (xs @ (k, ids) # ys) st1 = (Inr u, st')"
    by (auto simp: x split: sum.splits)
  from Cons.IH [OF rest] obtain between rr rest' where
    "trace st' = trace st1 @ between @ [(wixData_replaceReferences cn (Str k) i ids, Inr rr)] @ rest'"
    by blast
  with t show ?case
    by (intro exI [of _ "(wixData_replaceReferences cn (Str f) i ids', r) # between"]) auto
qed


lemma Object_entries_Obj [simp]: "Object_entries (Obj us) = Inr us"
  by (simp add: Object_entries_def)

lemma get_prop_defined: "get_prop b k = Inr v \<Longrightarrow> \<exists>w. get_prop b k' = Inr w"
  by (cases b) (auto split: option.splits)

lemma update_existing_update_call:
  assumes "(wixData_update c (Obj merged), r) \<in> set (trace (snd (update_existing env cn i (Obj us) ex st)))"
    and "(wixData_update c (Obj merged), r) \<notin> set (trace st)"
  shows "\<exists>cleaned refs. cleanedUpdates env us = Inr (cleaned, refs) \<and>
           merged = spread [ex, Obj (own cleaned)]"
proof (cases "cleanedUpdates env us")
  case (Inl e)
  with assms show ?thesis by (simp add: update_existing_def)
next
  case (Inr p)
  obtain cleaned refs where p: "p = (cleaned, refs)" by (cases p)
  let ?call = "wixData_update cn (Obj (spread [ex, Obj (own cleaned)]))"
  obtain res st1 where pf: "perform env ?call st = (res, st1)"
    and t: "trace st1 = trace st @ [(?call, res)]"
    by (rule perform_cases)
  have "(wixData_update c (Obj merged), r) \<in> set (trace st1)"
  proof (cases res)
    case (Inl e)
    with assms(1) Inr p pf show ?thesis by (simp add: update_existing_def)
  next
    case res: (Inr w)
    from loop_extends [of env cn i refs st1] obtain ext where
      e: "trace (snd (replaceReferences_loop env cn i refs st1)) = trace st1 @ ext" and
      o: "\<forall>(cl, r) \<in> set ext. \<exists>f ids. cl = wixData_replaceReferences cn (Str f) i ids"
      by blast
    from assms(1) Inr p pf res
    have "(wixData_update c (Obj merged), r) \<in> set (trace st1 @ ext)"
      by (simp add: update_existing_def e)
    with o show ?thesis by auto
  qed
  with t assms(2) have "merged = spread [ex, Obj (own cleaned)]" by simp
  with Inr p show ?thesis by simp
qed

lemma try_update_call:
  assumes "(wixData_update c (Obj merged), r) \<in> set (trace (snd (updateItemField_try env req st)))"
    and "(wixData_update c (Obj merged), r) \<notin> set (trace st)"
    and "body req = Inr b" and "get_prop b ''updates'' = Inr (Obj us)"
  shows "\<exists>cn i ex cleaned refs.
           (wixData_get cn i, Inr ex) \<in> set (trace (snd (updateItemField_try env req st))) \<and>
           cleanedUpdates env us = Inr (cleaned, refs) \<and>
           merged = spread [ex, Obj (own cleaned)]"
proof -
  from assms(4) obtain cn i where
    cn: "get_prop b ''collectionName'' = Inr cn" and i: "get_prop b ''itemId'' = Inr i"
    using get_prop_defined by blast
  obtain res st1 where pf: "perform env (wixData_get cn i) st = (res, st1)"
    and t: "trace st1 = trace st @ [(wixData_get cn i, res)]"
    by (rule perform_cases)
  have nin: "(wixData_update c (Obj merged), r) \<notin> set (trace st1)"
    using t assms(2) by simp
  from assms(1,2) nin pf obtain ex where
    res: "res = Inr ex" and
    run: "updateItemField_try env req st = update_existing env cn i (Obj us) ex st1"
    by (auto simp: updateItemField_try_def assms(3,4) cn i split: sum.splits if_splits)
  have "(wixData_get cn i, Inr ex) \<in> set (trace (snd (update_existing env cn i (Obj us) ex st1)))"
  proof -
    have "\<exists>ext. trace (snd (update_existing env cn i (Obj us) ex st1)) = trace st1 @ ext"
    proof (cases "cleanedUpdates env us")
      case (Inl e)
      then show ?thesis by (simp add: update_existing_def)
    next
      case (Inr p)
      obtain cleaned refs where p: "p = (cleaned, refs)" by (cases p)
      obtain res2 st2 where
        pf2: "perform env (wixData_update cn (Obj (spread [ex, Obj (own cleaned)]))) st1 = (res2, st2)"
        and t2: "trace st2 = trace st1 @ [(wixData_update cn (Obj (spread [ex, Obj (own cleaned)])), res2)]"
        by (rule perform_cases)
      from loop_extends [of env cn i refs st2] obtain ext where
        "trace (snd (replaceReferences_loop env cn i refs st2)) = trace st2 @ ext" by blast
      with Inr p pf2 t2 show ?thesis
        by (cases res2) (auto simp: update_existing_def)
    qed
    with t res show ?thesis by auto
  qed
  moreover from update_existing_update_call [of c merged r env cn i us ex st1] assms(1) nin run
  have "\<exists>cleaned refs. cleanedUpdates env us = Inr (cleaned, refs) \<and>
          merged = spread [ex, Obj (own cleaned)]"
    by simp
  ultimately show ?thesis using run by fastforce
qed

lemma handler_update_call:
  assumes "(wixData_update c (Obj merged), r) \<in> set (trace (snd (post_updateItemField env req)))"
    and "body req = Inr b" and "get_prop b ''updates'' = Inr (Obj us)"
  shows "\<exists>cn i ex cleaned refs.
           (wixData_get cn i, Inr ex) \<in> set (trace (snd (post_updateItemField env req))) \<and>
           cleanedUpdates env us = Inr (cleaned, refs) \<and>
           merged = spread [ex, Obj (own cleaned)]"
proof -
  obtain p st0 where perm: "isPermitted ''my_secret'' env (headers req) initial = (p, st0)"
    by (cases "isPermitted ''my_secret'' env (headers req) initial")
  from isPermitted_trace [of "''my_secret''" env "headers req" initial] perm
  have nin: "(wixData_update c (Obj merged), r) \<notin> set (trace st0)"
    by (auto simp: initial_def)
  obtain res st1 where run: "updateItemField_try env req st0 = (res, st1)"
    by (cases "updateItemField_try env req st0")
  have tr: "trace (snd (post_updateItemField env req)) = (if p then trace st1 else trace st0)"
    using perm run by (auto simp: post_updateItemField_def split: sum.splits)
  with assms(1) nin have p: p and "(wixData_update c (Obj merged), r) \<in> set (trace st1)"
    by (auto split: if_splits)
  with try_update_call [of c merged r env req st0 b us] nin run assms(2,3) tr
  show ?thesis by simp
qed

section \<open>MIME types: the lookup by extension\<close>

text \<open>
  C7. For a file name that is \<open>ext\<close>, or ends in a dot followed by \<open>ext\<close>, where
  \<open>ext\<close> has no dot, \<open>getMimeType\<close> returns the entry of the table for \<open>ext\<close> in
  lower case (jpg and jpeg give image/jpeg, png image/png, webp image/webp, gif
  image/gif) and image/jpeg when the table has none. A name without a dot is looked up
  as a whole. The names that an object literal inherits from \<open>Object.prototype\<close> are
  left out: for them the lookup does not return a MIME type.
\<close>

theorem getMimeType_by_extension:
  assumes "CHR ''.'' \<notin> set ext"
    and "f = ext \<or> (\<exists>stem. f = stem @ CHR ''.'' # ext)"
    and "toLowerCase ext \<notin> set object_prototype_names"
  shows "getMimeType (Str f) =
           Inr (Str (if toLowerCase ext = ''jpg'' \<or> toLowerCase ext = ''jpeg'' then ''image/jpeg''
                     else if toLowerCase ext = ''png'' then ''image/png''
                     else if toLowerCase ext = ''webp'' then ''image/webp''
                     else if toLowerCase ext = ''gif'' then ''image/gif''
                     else ''image/jpeg''))"
proof -
  from assms(1,2) have "last (split f CHR ''.'') = ext"
    by (auto simp: split_no_sep last_split_append)
  with assms(3) show ?thesis
    by (simp add: getMimeType_def mime_map_def)
qed

theorem getMimeType_by_extension_witness:
  "getMimeType (Str ''photo.PNG'') = Inr (Str ''image/png'')"
proof -
  have a: "CHR ''.'' \<notin> set ''PNG''" by simp
  have b: "''photo.PNG'' = ''PNG'' \<or> (\<exists>stem. ''photo.PNG'' = stem @ CHR ''.'' # ''PNG'')"
    by (rule disjI2, rule exI [of _ "''photo''"]) simp
  have c: "toLowerCase ''PNG'' \<notin> set object_prototype_names"
    by (simp add: toLowerCase_def object_prototype_names_def)
  show ?thesis
    using getMimeType_by_extension [OF a b c] by (simp add: toLowerCase_def)
qed

text \<open>
  A file name without a dot that is itself a key of the table does not get the default:
  \<open>png\<close> is given image/png.
\<close>

theorem getMimeType_no_dot_counterexample:
  "CHR ''.'' \<notin> set ''png'' \<and> getMimeType (Str ''png'') = Inr (Str ''image/png'')"
  by (simp add: getMimeType_def mime_map_def toLowerCase_def)

text \<open>
  For the extension \<open>constructor\<close> the lookup finds the function that the table
  inherits, and returns it in place of a MIME type.
\<close>

lemma getMimeType_inherited:
  "getMimeType (Str ''photo.constructor'') = Inr (Intrinsic ''constructor'')"
  by (simp add: getMimeType_def mime_map_def toLowerCase_def object_prototype_names_def)

section \<open>The safebool prefix\<close>

lemma cleaned_distinct:
  "cleanedUpdates env us = Inr (cleaned, refs) \<Longrightarrow> distinct (map fst (own cleaned))"
  using reduce_distinct [of env us empty_object "[]" cleaned refs]
  by (simp add: cleanedUpdates_def empty_object_def)

lemma map_of_merged:
  "distinct (map fst (own cleaned)) \<Longrightarrow>
   map_of (spread [ex, Obj (own cleaned)]) k =
     (case map_of (own cleaned) k of Some v \<Rightarrow> Some v | None \<Rightarrow> map_of (rev (own_entries ex)) k)"
  by (simp add: map_of_spread2 map_of_rev_distinct map_add_def)

text \<open>
  Why \<open>__proto__\<close> is set apart: assigning a boolean to \<open>acc["__proto__"]\<close> calls the
  inherited setter, which ignores a primitive, so the key \<open>safebool___proto__\<close> stores
  nothing.
\<close>

lemma safebool_proto_not_stored:
  "reducer env (empty_object, []) (''safebool___proto__'', v) = Inr (empty_object, [])"
  by (simp add: startsWith_def assign_def empty_object_def)

text \<open>
  C1. Let \<open>updates\<close> hold the key \<open>safebool_<name>\<close> with value \<open>v\<close>, and let
  \<open>post_updateItemField\<close> persist a merged record. If \<open>name\<close> is not \<open>__proto__\<close> and
  no later key of \<open>updates\<close> is \<open><name>\<close>, \<open>date_<name>\<close> or \<open>safebool_<name>\<close>,
  the record stores under \<open><name>\<close> the boolean that is true exactly when \<open>v\<close> is
  \<open>true\<close>, \<open>"true"\<close>, \<open>1\<close> or \<open>"1"\<close>. The record has no field
  \<open>safebool_<name>\<close> if the fetched item has none and no other key of \<open>updates\<close> is
  \<open>date_safebool_<name>\<close> or \<open>safebool_safebool_<name>\<close>.
\<close>

theorem safebool_coerced:
  assumes "body req = Inr b"
    and "get_prop b ''updates'' = Inr (Obj (pre @ (''safebool_'' @ name, v) # post))"
    and "(wixData_update c (Obj merged), r) \<in> set (trace (snd (post_updateItemField env req)))"
  shows "(name \<noteq> ''__proto__'' \<and>
          (\<forall>(k, w) \<in> set post. k \<noteq> name \<and> k \<noteq> ''date_'' @ name \<and> k \<noteq> ''safebool_'' @ name) \<longrightarrow>
            map_of merged name =
              Some (Bool (v = Bool True \<or> v = Str ''true'' \<or> v = Num 1 \<or> v = Str ''1''))) \<and>
         ((\<forall>(k, w) \<in> set (pre @ post).
              k \<noteq> ''date_safebool_'' @ name \<and> k \<noteq> ''safebool_safebool_'' @ name) \<and>
          (\<forall>cn i ex. (wixData_get cn i, Inr ex) \<in> set (trace (snd (post_updateItemField env req))) \<longrightarrow>
              map_of (own_entries ex) (''safebool_'' @ name) = None) \<longrightarrow>
            map_of merged (''safebool_'' @ name) = None)"
proof -
  let ?key = "''safebool_'' @ name"
  let ?us = "pre @ (?key, v) # post"
  let ?b = "Bool (v = Bool True \<or> v = Str ''true'' \<or> v = Num 1 \<or> v = Str ''1'')"
  from handler_update_call [OF assms(3,1,2)] obtain cn i ex cleaned refs where
    get: "(wixData_get cn i, Inr ex) \<in> set (trace (snd (post_updateItemField env req)))" and
    cu: "cleanedUpdates env ?us = Inr (cleaned, refs)" and
    m: "merged = spread [ex, Obj (own cleaned)]"
    by blast
  have dist: "distinct (map fst (own cleaned))" by (rule cleaned_distinct [OF cu])
  from cu obtain a1 m1 where
    p: "reduce env pre (empty_object, []) = Inr (a1, m1)" and
    q: "reduce env ((?key, v) # post) (a1, m1) = Inr (cleaned, refs)"
    by (auto simp: cleanedUpdates_def reduce_append split: sum.splits)
  from q have rest: "reduce env post (assign a1 name ?b, m1) = Inr (cleaned, refs)"
    by (simp add: reducer_safebool del: append.simps reducer.simps)
  have part1:
    "name \<noteq> ''__proto__'' \<and>
     (\<forall>(k, w) \<in> set post. k \<noteq> name \<and> k \<noteq> ''date_'' @ name \<and> k \<noteq> ''safebool_'' @ name) \<longrightarrow>
       map_of merged name = Some ?b"
  proof (intro impI, elim conjE)
    assume n: "name \<noteq> ''__proto__''"
      and later: "\<forall>(k, w) \<in> set post. k \<noteq> name \<and> k \<noteq> ''date_'' @ name \<and> k \<noteq> ''safebool_'' @ name"
    have "map_of (own cleaned) name = map_of (own (assign a1 name ?b)) name"
      using later by (intro reduce_frame [OF rest]) auto
    also have "\<dots> = Some ?b" using n by (rule own_assign_same)
    finally show "map_of merged name = Some ?b" by (simp add: m map_of_merged [OF dist])
  qed
  have part2:
    "(\<forall>(k, w) \<in> set (pre @ post).
        k \<noteq> ''date_safebool_'' @ name \<and> k \<noteq> ''safebool_safebool_'' @ name) \<and>
     (\<forall>cn i ex. (wixData_get cn i, Inr ex) \<in> set (trace (snd (post_updateItemField env req))) \<longrightarrow>
        map_of (own_entries ex) ?key = None) \<longrightarrow>
       map_of merged ?key = None"
  proof (intro impI, elim conjE)
    assume others: "\<forall>(k, w) \<in> set (pre @ post).
          k \<noteq> ''date_safebool_'' @ name \<and> k \<noteq> ''safebool_safebool_'' @ name"
      and existing: "\<forall>cn i ex. (wixData_get cn i, Inr ex) \<in> set (trace (snd (post_updateItemField env req))) \<longrightarrow>
              map_of (own_entries ex) ?key = None"
    have sw: "startsWith ?key ''safebool_''" by (simp add: startsWith_def)
    have "map_of (own cleaned) ?key = map_of (own empty_object) ?key"
      using others sw
      by (intro reduce_frame [OF cu [unfolded cleanedUpdates_def]]) auto
    then have "map_of (own cleaned) ?key = None" by (simp add: empty_object_def)
    moreover from existing get have "map_of (own_entries ex) ?key = None"
      by (elim allE [of _ cn] allE [of _ i] allE [of _ ex]) simp
    then have "map_of (rev (own_entries ex)) ?key = None"
      by (simp only: map_of_rev_None)
    ultimately show "map_of merged ?key = None" by (simp add: m map_of_merged [OF dist])
  qed
  from part1 part2 show ?thesis by (rule conjI)
qed


text \<open>The definitions that evaluate \<open>post_updateItemField\<close> on the sample platform.\<close>

lemmas updateItemField_defs =
  post_updateItemField_def sample_update_request_def sample_env_def
  sample_respond_def isPermitted_def perform_def emit_def initial_def strict_equals_def
  updateItemField_try_def update_existing_def cleanedUpdates_def empty_object_def
  startsWith_def assign_def spread_def object_prototype_names_def

theorem safebool_coerced_witness:
  "(wixData_update (Str ''Items'')
      (Obj [(''_id'', Str ''item-1''), (''title'', Str ''New title''), (''active'', Bool True)]),
    Inr (Obj [(''_id'', Str ''item-1''), (''title'', Str ''New title''), (''active'', Bool True)]))
     \<in> set (trace (snd (post_updateItemField sample_env
                (sample_update_request
                   [(''title'', Str ''New title''), (''safebool_active'', Str ''1'')])))) \<and>
   map_of [(''_id'', Str ''item-1''), (''title'', Str ''New title''), (''active'', Bool True)]
      ''active'' = Some (Bool True) \<and>
   map_of [(''_id'', Str ''item-1''), (''title'', Str ''New title''), (''active'', Bool True)]
      ''safebool_active'' = None"
proof -
  let ?req = "sample_update_request [(''title'', Str ''New title''), (''safebool_active'', Str ''1'')]"
  let ?b = "Obj [(''collectionName'', Str ''Items''), (''itemId'', Str ''item-1''),
                 (''updates'', Obj [(''title'', Str ''New title''), (''safebool_active'', Str ''1'')])]"
  let ?m = "[(''_id'', Str ''item-1''), (''title'', Str ''New title''), (''active'', Bool True)]"
  have b: "body ?req = Inr ?b" by (simp add: sample_update_request_def)
  have u: "get_prop ?b ''updates'' =
             Inr (Obj ([(''title'', Str ''New title'')] @ (''safebool_'' @ ''active'', Str ''1'') # []))"
    by simp
  have t: "(wixData_update (Str ''Items'') (Obj ?m), Inr (Obj ?m))
             \<in> set (trace (snd (post_updateItemField sample_env ?req)))"
    by (simp add: updateItemField_defs)
  have g: "\<forall>cn i ex. (wixData_get cn i, Inr ex) \<in> set (trace (snd (post_updateItemField sample_env ?req))) \<longrightarrow>
             map_of (own_entries ex) (''safebool_'' @ ''active'') = None"
    by (simp add: updateItemField_defs)
  from safebool_coerced [OF b u t] g t show ?thesis by simp
qed

text \<open>
  A later key with the plain name overwrites the coerced boolean: with
  \<open>{ safebool_active: 1, active: "no" }\<close> the record persisted stores \<open>"no"\<close> under
  \<open>active\<close>.
\<close>

theorem safebool_overwritten_counterexample:
  "trace (snd (post_updateItemField sample_env
       (sample_update_request [(''safebool_active'', Num 1), (''active'', Str ''no'')]))) =
     [(getSecret ''my_secret'', Inr (Str ''s3cret'')),
      (wixData_get (Str ''Items'') (Str ''item-1''),
       Inr (Obj [(''_id'', Str ''item-1''), (''title'', Str ''Old title'')])),
      (wixData_update (Str ''Items'')
         (Obj [(''_id'', Str ''item-1''), (''title'', Str ''Old title''), (''active'', Str ''no'')]),
       Inr (Obj [(''_id'', Str ''item-1''), (''title'', Str ''Old title''), (''active'', Str ''no'')]))]"
  by (simp add: updateItemField_defs)

section \<open>The refs prefix\<close>

lemma cleanedUpdates_refs_non_array:
  "\<not> isArray v \<Longrightarrow>
   cleanedUpdates env (pre @ (''refs_'' @ k, v) # post) = cleanedUpdates env (pre @ post)"
  unfolding cleanedUpdates_def reduce_refs_entry
  by (auto simp: reduce_append split: sum.splits)

lemma cleanedUpdates_refs_record:
  "map_sum id fst (cleanedUpdates env (pre @ (''refs_'' @ k, v) # post)) =
   map_sum id fst (cleanedUpdates env (pre @ post))"
proof (cases "cleanedUpdates env (pre @ (''refs_'' @ k, v) # post)")
  case (Inr p)
  obtain acc' m' where p: "p = (acc', m')" by (cases p)
  from reduce_without_refs_entry [of env pre k v post empty_object "[]" acc' m'] Inr p
  show ?thesis by (auto simp: cleanedUpdates_def)
next
  case (Inl e)
  from Inl [unfolded cleanedUpdates_def reduce_refs_entry]
  have "reduce env (pre @ post) (empty_object, []) = Inl e"
  proof (cases "reduce env pre (empty_object, [])")
    case l: (Inl e')
    with Inl [unfolded cleanedUpdates_def reduce_refs_entry] show ?thesis
      by (simp add: reduce_append)
  next
    case r: (Inr q)
    obtain a1 m1 where q: "q = (a1, m1)" by (cases q)
    from Inl [unfolded cleanedUpdates_def reduce_refs_entry] r q
    have "reduce env post (a1, if isArray v then m1 @ [(k, v)] else m1) = Inl e" by simp
    then have "reduce env post (a1, []) = Inl e"
      using reduce_refs_list [of env post a1 "if isArray v then m1 @ [(k, v)] else m1"]
      by (auto split: sum.splits)
    then have "reduce env post (a1, m1) = Inl e"
      using reduce_refs_list [of env post a1 m1] by simp
    with r q show ?thesis by (simp add: reduce_append)
  qed
  with Inl show ?thesis by (simp add: cleanedUpdates_def)
qed

lemma handler_same_updates:
  assumes "body req = Inr b" and "body req' = Inr b'" and "headers req' = headers req"
    and "get_prop b' ''collectionName'' = get_prop b ''collectionName''"
    and "get_prop b' ''itemId'' = get_prop b ''itemId''"
    and "get_prop b ''updates'' = Inr (Obj us)" and "get_prop b' ''updates'' = Inr (Obj us')"
    and "cleanedUpdates env us = cleanedUpdates env us'"
  shows "post_updateItemField env req = post_updateItemField env req'"
proof -
  have upd: "update_existing env cn i (Obj us) ex st = update_existing env cn i (Obj us') ex st"
    for cn i ex st
    by (simp add: update_existing_def assms(8))
  have same: "updateItemField_try env req st = updateItemField_try env req' st" for st
    by (auto simp: updateItemField_try_def assms(1,2,4,5,6,7) upd split: sum.splits prod.splits)
  show ?thesis
    by (simp add: post_updateItemField_def assms(3) same split: prod.splits bool.splits)
qed

text \<open>
  C9. In \<open>post_updateItemField\<close>, a key \<open>refs_<k>\<close> whose value is not an array is
  dropped: the step of the reduce raises no error and leaves both the accumulated record
  and the list of deferred operations as they were, so the cleaned updates, and with
  them the whole run of the handler (response, platform calls, console), are those of
  the request without that key.
\<close>

theorem refs_non_array_dropped:
  assumes "\<not> isArray v"
  shows "reducer env (acc, multiRefUpdates) (''refs_'' @ k, v) = Inr (acc, multiRefUpdates) \<and>
         cleanedUpdates env (pre @ (''refs_'' @ k, v) # post) = cleanedUpdates env (pre @ post) \<and>
         (body req = Inr b \<and> body req' = Inr b' \<and> headers req' = headers req \<and>
          get_prop b' ''collectionName'' = get_prop b ''collectionName'' \<and>
          get_prop b' ''itemId'' = get_prop b ''itemId'' \<and>
          get_prop b ''updates'' = Inr (Obj (pre @ (''refs_'' @ k, v) # post)) \<and>
          get_prop b' ''updates'' = Inr (Obj (pre @ post)) \<longrightarrow>
            post_updateItemField env req = post_updateItemField env req')"
proof (intro conjI impI)
  show "reducer env (acc, multiRefUpdates) (''refs_'' @ k, v) = Inr (acc, multiRefUpdates)"
    using assms by (simp only: reducer_refs if_False)
  show c: "cleanedUpdates env (pre @ (''refs_'' @ k, v) # post) = cleanedUpdates env (pre @ post)"
    using assms by (rule cleanedUpdates_refs_non_array)
  assume "body req = Inr b \<and> body req' = Inr b' \<and> headers req' = headers req \<and>
          get_prop b' ''collectionName'' = get_prop b ''collectionName'' \<and>
          get_prop b' ''itemId'' = get_prop b ''itemId'' \<and>
          get_prop b ''updates'' = Inr (Obj (pre @ (''refs_'' @ k, v) # post)) \<and>
          get_prop b' ''updates'' = Inr (Obj (pre @ post))"
  then show "post_updateItemField env req = post_updateItemField env req'"
    by (elim conjE) (rule handler_same_updates [OF _ _ _ _ _ _ _ c])
qed

theorem refs_non_array_dropped_witness:
  "reducer sample_env (empty_object, []) (''refs_tags'', Str ''t1'') = Inr (empty_object, []) \<and>
   post_updateItemField sample_env
     (sample_update_request [(''refs_tags'', Str ''t1''), (''title'', Str ''New title'')]) =
   post_updateItemField sample_env (sample_update_request [(''title'', Str ''New title'')])"
proof -
  have h: "\<not> isArray (Str ''t1'')" by simp
  have "body (sample_update_request us) =
          Inr (Obj [(''collectionName'', Str ''Items''), (''itemId'', Str ''item-1''),
                    (''updates'', Obj us)])" for us
    by (simp add: sample_update_request_def)
  moreover have "headers (sample_update_request us) = headers (sample_update_request us')" for us us'
    by (simp add: sample_update_request_def)
  ultimately show ?thesis
    using refs_non_array_dropped [OF h, of sample_env empty_object "[]" "''tags''" "[]"
        "[(''title'', Str ''New title'')]"
        "sample_update_request [(''refs_tags'', Str ''t1''), (''title'', Str ''New title'')]"
        "Obj [(''collectionName'', Str ''Items''), (''itemId'', Str ''item-1''),
              (''updates'', Obj [(''refs_tags'', Str ''t1''), (''title'', Str ''New title'')])]"
        "sample_update_request [(''title'', Str ''New title'')]"
        "Obj [(''collectionName'', Str ''Items''), (''itemId'', Str ''item-1''),
              (''updates'', Obj [(''title'', Str ''New title'')])]"]
    by simp
qed

lemma reducer_refs_origin:
  "reducer env (acc, m) (key, value) = Inr (acc', m') \<Longrightarrow> (f, v) \<in> set m' \<Longrightarrow>
   (f, v) \<in> set m \<or> (key = ''refs_'' @ f \<and> value = v)"
  using startsWith_split [of key "''refs_''"]
  by (auto split: if_splits sum.splits)

lemma reduce_refs_origin:
  "reduce env es (acc, m) = Inr (acc', m') \<Longrightarrow> (f, v) \<in> set m' \<Longrightarrow>
   (f, v) \<in> set m \<or> (''refs_'' @ f, v) \<in> set es"
proof (induction es arbitrary: acc m)
  case Nil
  then show ?case by simp
next
  case (Cons e es)
  obtain key val where e: "e = (key, val)" by (cases e)
  from Cons.prems(1) obtain acc1 m1 where
    step: "reducer env (acc, m) (key, val) = Inr (acc1, m1)" and
    rest: "reduce env es (acc1, m1) = Inr (acc', m')"
    by (auto simp: e split: sum.splits)
  from Cons.IH [OF rest Cons.prems(2)] have "(f, v) \<in> set m1 \<or> (''refs_'' @ f, v) \<in> set es" .
  then show ?case
  proof
    assume "(f, v) \<in> set m1"
    from reducer_refs_origin [OF step this] show ?thesis by (auto simp: e)
  next
    assume "(''refs_'' @ f, v) \<in> set es"
    then show ?thesis by simp
  qed
qed

lemma reduce_split_refs_entry:
  assumes "reduce env (pre @ (''refs_'' @ k, v) # post) (acc, m) = Inr (acc', m')"
  shows "\<exists>a1 m1 m2. reduce env pre (acc, m) = Inr (a1, m1) \<and>
           reduce env (pre @ post) (acc, m) = Inr (acc', m1 @ m2) \<and>
           m' = m1 @ (if isArray v then [(k, v)] else []) @ m2"
proof -
  from assms [unfolded reduce_refs_entry] obtain a1 m1 where
    p: "reduce env pre (acc, m) = Inr (a1, m1)" and
    q: "reduce env post (a1, if isArray v then m1 @ [(k, v)] else m1) = Inr (acc', m')"
    by (auto split: sum.splits)
  from q obtain x where
    x: "reduce env post (a1, []) = Inr (acc', x)" and
    m': "m' = (if isArray v then m1 @ [(k, v)] else m1) @ x"
    using reduce_refs_list [of env post a1 "if isArray v then m1 @ [(k, v)] else m1"]
    by (auto split: sum.splits)
  have "reduce env post (a1, m1) = Inr (acc', m1 @ x)"
    using reduce_refs_list [of env post a1 m1] x by simp
  then have "reduce env (pre @ post) (acc, m) = Inr (acc', m1 @ x)"
    using p by (simp add: reduce_append)
  with p m' show ?thesis by auto
qed

lemma loop_reaches:
  assumes "\<forall>(f, ids') \<in> set xs. \<forall>e.
             (wixData_replaceReferences cn (Str f) i ids', Inl e)
               \<notin> set (trace (snd (replaceReferences_loop env cn i (xs @ (k, ids) # ys) st)))"
  shows "\<exists>between rr rest.
           trace (snd (replaceReferences_loop env cn i (xs @ (k, ids) # ys) st)) =
             trace st @ between @ [(wixData_replaceReferences cn (Str k) i ids, rr)] @ rest"
  using assms
proof (induction xs arbitrary: st)
  case Nil
  obtain r st1 where p: "perform env (wixData_replaceReferences cn (Str k) i ids) st = (r, st1)"
    and t: "trace st1 = trace st @ [(wixData_replaceReferences cn (Str k) i ids, r)]"
    by (rule perform_cases)
  from loop_extends [of env cn i ys st1] obtain ext where
    e: "trace (snd (replaceReferences_loop env cn i ys st1)) = trace st1 @ ext"
    by blast
  have "\<exists>rest. trace (snd (replaceReferences_loop env cn i ([] @ (k, ids) # ys) st)) =
          trace st1 @ rest"
    using p e by (cases r) auto
  with t show ?case by (auto intro: exI [of _ "[]"])
next
  case (Cons x xs)
  obtain f ids' where x: "x = (f, ids')" by (cases x)
  obtain r st1 where p: "perform env (wixData_replaceReferences cn (Str f) i ids') st = (r, st1)"
    and t: "trace st1 = trace st @ [(wixData_replaceReferences cn (Str f) i ids', r)]"
    by (rule perform_cases)
  show ?case
  proof (cases r)
    case (Inl e)
    with p t have
      "trace (snd (replaceReferences_loop env cn i ((x # xs) @ (k, ids) # ys) st)) =
         trace st @ [(wixData_replaceReferences cn (Str f) i ids', Inl e)]"
      by (simp add: x)
    with Cons.prems show ?thesis by (auto simp: x)
  next
    case (Inr w)
    with p have same:
      "replaceReferences_loop env cn i ((x # xs) @ (k, ids) # ys) st =
         replaceReferences_loop env cn i (xs @ (k, ids) # ys) st1"
      by (simp add: x)
    from Cons.prems [unfolded same] have
      "\<forall>(f, ids') \<in> set xs. \<forall>e.
         (wixData_replaceReferences cn (Str f) i ids', Inl e)
           \<notin> set (trace (snd (replaceReferences_loop env cn i (xs @ (k, ids) # ys) st1)))"
      by auto
    from Cons.IH [OF this] obtain between rr rest where
      "trace (snd (replaceReferences_loop env cn i (xs @ (k, ids) # ys) st1)) =
         trace st1 @ between @ [(wixData_replaceReferences cn (Str k) i ids, rr)] @ rest"
      by blast
    with t same show ?thesis
      by (intro exI [of _ "(wixData_replaceReferences cn (Str f) i ids', r) # between"]) auto
  qed
qed


lemma update_existing_persisted:
  assumes "(wixData_update c' merged, Inr ru)
             \<in> set (trace (snd (update_existing env c i (Obj us) ex st)))"
    and "(wixData_update c' merged, Inr ru) \<notin> set (trace st)"
  shows "\<exists>cleaned refs st2.
           cleanedUpdates env us = Inr (cleaned, refs) \<and> c' = c \<and>
           merged = Obj (spread [ex, Obj (own cleaned)]) \<and>
           trace st2 = trace st @ [(wixData_update c merged, Inr ru)] \<and>
           trace (snd (update_existing env c i (Obj us) ex st)) =
             trace (snd (replaceReferences_loop env c i refs st2))"
proof (cases "cleanedUpdates env us")
  case (Inl e)
  with assms show ?thesis by (simp add: update_existing_def)
next
  case (Inr p)
  obtain cleaned refs where p: "p = (cleaned, refs)" by (cases p)
  let ?call = "wixData_update c (Obj (spread [ex, Obj (own cleaned)]))"
  obtain res st2 where pf: "perform env ?call st = (res, st2)"
    and t: "trace st2 = trace st @ [(?call, res)]"
    by (rule perform_cases)
  show ?thesis
  proof (cases res)
    case (Inl e)
    with assms Inr p pf t show ?thesis by (simp add: update_existing_def)
  next
    case res: (Inr w)
    from loop_extends [of env c i refs st2] obtain ext where
      e: "trace (snd (replaceReferences_loop env c i refs st2)) = trace st2 @ ext" and
      o: "\<forall>(cl, r) \<in> set ext. \<exists>f ids. cl = wixData_replaceReferences c (Str f) i ids"
      by blast
    have run: "update_existing env c i (Obj us) ex st = replaceReferences_loop env c i refs st2"
      using Inr p pf res by (simp add: update_existing_def)
    from assms(1) have "(wixData_update c' merged, Inr ru) \<in> set (trace st2 @ ext)"
      by (simp add: run e)
    with o assms(2) t have "(wixData_update c' merged, Inr ru) = (?call, res)" by auto
    with Inr p t run show ?thesis by auto
  qed
qed

lemma handler_persisted:
  assumes "(wixData_update c' merged, Inr ru) \<in> set (trace (snd (post_updateItemField env req)))"
    and "body req = Inr b"
    and "get_prop b ''collectionName'' = Inr c"
    and "get_prop b ''itemId'' = Inr i"
    and "get_prop b ''updates'' = Inr (Obj us)"
  shows "\<exists>before ex cleaned refs st2.
           cleanedUpdates env us = Inr (cleaned, refs) \<and> c' = c \<and>
           merged = Obj (spread [ex, Obj (own cleaned)]) \<and>
           trace st2 = before @ [(wixData_get c i, Inr ex), (wixData_update c merged, Inr ru)] \<and>
           trace (snd (post_updateItemField env req)) =
             trace (snd (replaceReferences_loop env c i refs st2))"
proof -
  let ?u = "(wixData_update c' merged, Inr ru)"
  obtain p st0 where perm: "isPermitted ''my_secret'' env (headers req) initial = (p, st0)"
    by (cases "isPermitted ''my_secret'' env (headers req) initial")
  from isPermitted_trace [of "''my_secret''" env "headers req" initial] perm
  have nin0: "?u \<notin> set (trace st0)"
    by (auto simp: initial_def)
  obtain res st1 where run: "updateItemField_try env req st0 = (res, st1)"
    by (cases "updateItemField_try env req st0")
  have tr: "trace (snd (post_updateItemField env req)) = (if p then trace st1 else trace st0)"
    using perm run by (auto simp: post_updateItemField_def split: sum.splits)
  with assms(1) nin0 have p: p and in1: "?u \<in> set (trace st1)"
    by (auto split: if_splits)
  obtain g st' where pf: "perform env (wixData_get c i) st0 = (g, st')"
    and t: "trace st' = trace st0 @ [(wixData_get c i, g)]"
    by (rule perform_cases)
  have nin': "?u \<notin> set (trace st')" using t nin0 by simp
  from in1 nin0 nin' run pf obtain ex where
    g: "g = Inr ex" and
    same: "updateItemField_try env req st0 = update_existing env c i (Obj us) ex st'"
    by (auto simp: updateItemField_try_def assms(2-5) split: sum.splits if_splits)
  from in1 run same have "?u \<in> set (trace (snd (update_existing env c i (Obj us) ex st')))"
    by simp
  from update_existing_persisted [OF this nin'] obtain cleaned refs st2 where
    "cleanedUpdates env us = Inr (cleaned, refs)" "c' = c"
    "merged = Obj (spread [ex, Obj (own cleaned)])"
    "trace st2 = trace st' @ [(wixData_update c merged, Inr ru)]"
    "trace (snd (update_existing env c i (Obj us) ex st')) =
       trace (snd (replaceReferences_loop env c i refs st2))"
    by blast
  with t g tr p run same show ?thesis
    by (intro exI [of _ "trace st0"] exI [of _ ex] exI [of _ cleaned] exI [of _ refs]
        exI [of _ st2]) simp
qed

text \<open>The definitions that evaluate \<open>post_updateItemField\<close> on the failing platform.\<close>

lemmas failing_updateItemField_defs =
  post_updateItemField_def sample_update_request_def failing_env_def failing_respond_def
  sample_env_def sample_respond_def isPermitted_def perform_def emit_def initial_def
  strict_equals_def updateItemField_try_def update_existing_def cleanedUpdates_def
  empty_object_def startsWith_def assign_def spread_def object_prototype_names_def

text \<open>
  Claim C2.  The handler awaits its platform calls one after the other inside a single
  \<open>try\<close> block, so the first rejected call ends the run.  Let \<open>updates\<close> hold the key
  \<open>refs_<k>\<close> with the array \<open>ids\<close>.  If the run persisted the main record update
  (\<open>wixData.update\<close> resolved with \<open>ru\<close>), and no \<open>replaceReferences\<close> call for a
  \<open>refs_\<close> key that stands before \<open>refs_<k>\<close> in \<open>updates\<close> was rejected, then: the record
  that was written is the existing item overlaid with the fields cleaned from the other
  entries alone, so the entry is not part of it; the write follows the read of the existing
  item at once; and after the write the trace holds the call
  \<open>replaceReferences(collectionName, k, itemId, ids)\<close> with exactly the given identifiers
  in their given order, whatever the result \<open>rr\<close> of that call is.
\<close>

theorem refs_applied_after_update:
  assumes "body req = Inr b"
    and "get_prop b ''collectionName'' = Inr c"
    and "get_prop b ''itemId'' = Inr i"
    and "get_prop b ''updates'' = Inr (Obj (pre @ (''refs_'' @ k, Arr ids) # post))"
    and "(wixData_update c' merged, Inr ru)
           \<in> set (trace (snd (post_updateItemField env req)))"
    and "\<forall>(key, v) \<in> set pre. \<forall>f e. key = ''refs_'' @ f \<longrightarrow>
           (wixData_replaceReferences c (Str f) i v, Inl e)
             \<notin> set (trace (snd (post_updateItemField env req)))"
  shows "\<exists>existingItem cleaned others before between rr rest.
           cleanedUpdates env (pre @ post) = Inr (cleaned, others) \<and>
           c' = c \<and> merged = Obj (spread [existingItem, Obj (own cleaned)]) \<and>
           trace (snd (post_updateItemField env req)) =
             before @
             [(wixData_get c i, Inr existingItem), (wixData_update c merged, Inr ru)] @
             between @
             [(wixData_replaceReferences c (Str k) i (Arr ids), rr)] @ rest"
proof -
  let ?us = "pre @ (''refs_'' @ k, Arr ids) # post"
  let ?T = "trace (snd (post_updateItemField env req))"
  from handler_persisted [OF assms(5,1-4)] obtain before ex cleaned refs st2 where
    cu: "cleanedUpdates env ?us = Inr (cleaned, refs)" and
    c: "c' = c" and m: "merged = Obj (spread [ex, Obj (own cleaned)])" and
    t2: "trace st2 = before @ [(wixData_get c i, Inr ex), (wixData_update c merged, Inr ru)]" and
    T: "?T = trace (snd (replaceReferences_loop env c i refs st2))"
    by blast
  from reduce_split_refs_entry [OF cu [unfolded cleanedUpdates_def]] obtain a1 m1 m2 where
    pre: "reduce env pre (empty_object, []) = Inr (a1, m1)" and
    without: "cleanedUpdates env (pre @ post) = Inr (cleaned, m1 @ m2)" and
    refs: "refs = m1 @ (k, Arr ids) # m2"
    by (auto simp: cleanedUpdates_def)
  have "\<forall>(f, ids') \<in> set m1. \<forall>e.
          (wixData_replaceReferences c (Str f) i ids', Inl e)
            \<notin> set (trace (snd (replaceReferences_loop env c i (m1 @ (k, Arr ids) # m2) st2)))"
  proof (intro ballI, clarify)
    fix f ids' e
    assume "(f, ids') \<in> set m1"
      and bad: "(wixData_replaceReferences c (Str f) i ids', Inl e)
        \<in> set (trace (snd (replaceReferences_loop env c i (m1 @ (k, Arr ids) # m2) st2)))"
    from reduce_refs_origin [OF pre this(1)] have "(''refs_'' @ f, ids') \<in> set pre" by simp
    with assms(6) have "(wixData_replaceReferences c (Str f) i ids', Inl e) \<notin> set ?T"
      by blast
    with bad T refs show False by simp
  qed
  from loop_reaches [OF this] obtain between rr rest where
    "trace (snd (replaceReferences_loop env c i (m1 @ (k, Arr ids) # m2) st2)) =
       trace st2 @ between @ [(wixData_replaceReferences c (Str k) i (Arr ids), rr)] @ rest"
    by blast
  with T refs t2 have
    "?T = before @
       [(wixData_get c i, Inr ex), (wixData_update c merged, Inr ru)] @
       between @ [(wixData_replaceReferences c (Str k) i (Arr ids), rr)] @ rest"
    by simp
  with without c m show ?thesis by blast
qed

theorem refs_applied_after_update_witness:
  "\<exists>existingItem cleaned others before between rr rest.
     cleanedUpdates failing_env ([(''refs_tags'', Arr [Str ''t1''])] @ []) = Inr (cleaned, others) \<and>
     Str ''Items'' = Str ''Items'' \<and>
     Obj [(''_id'', Str ''item-1''), (''title'', Str ''Old title'')] =
       Obj (spread [existingItem, Obj (own cleaned)]) \<and>
     trace (snd (post_updateItemField failing_env
        (sample_update_request
           [(''refs_tags'', Arr [Str ''t1'']), (''refs_authors'', Arr [Str ''a2'', Str ''a1''])]))) =
       before @
       [(wixData_get (Str ''Items'') (Str ''item-1''), Inr existingItem),
        (wixData_update (Str ''Items'')
           (Obj [(''_id'', Str ''item-1''), (''title'', Str ''Old title'')]),
         Inr (Obj [(''_id'', Str ''item-1''), (''title'', Str ''Old title'')]))] @
       between @
       [(wixData_replaceReferences (Str ''Items'') (Str ''authors'') (Str ''item-1'')
           (Arr [Str ''a2'', Str ''a1'']), rr)] @ rest"
proof (rule refs_applied_after_update)
  let ?req = "sample_update_request
     [(''refs_tags'', Arr [Str ''t1'']), (''refs_authors'', Arr [Str ''a2'', Str ''a1''])]"
  let ?b = "Obj [(''collectionName'', Str ''Items''), (''itemId'', Str ''item-1''),
      (''updates'',
       Obj [(''refs_tags'', Arr [Str ''t1'']), (''refs_authors'', Arr [Str ''a2'', Str ''a1''])])]"
  show "body ?req = Inr ?b" by (simp add: sample_update_request_def)
  show "get_prop ?b ''collectionName'' = Inr (Str ''Items'')" by simp
  show "get_prop ?b ''itemId'' = Inr (Str ''item-1'')" by simp
  show "get_prop ?b ''updates'' =
          Inr (Obj ([(''refs_tags'', Arr [Str ''t1''])] @
                    (''refs_'' @ ''authors'', Arr [Str ''a2'', Str ''a1'']) # []))"
    by simp
  show "(wixData_update (Str ''Items'')
           (Obj [(''_id'', Str ''item-1''), (''title'', Str ''Old title'')]),
         Inr (Obj [(''_id'', Str ''item-1''), (''title'', Str ''Old title'')]))
          \<in> set (trace (snd (post_updateItemField failing_env ?req)))"
    by (simp add: failing_updateItemField_defs)
  show "\<forall>(key, v) \<in> set [(''refs_tags'', Arr [Str ''t1''])]. \<forall>f e. key = ''refs_'' @ f \<longrightarrow>
           (wixData_replaceReferences (Str ''Items'') (Str f) (Str ''item-1'') v, Inl e)
             \<notin> set (trace (snd (post_updateItemField failing_env ?req)))"
    by (simp add: failing_updateItemField_defs)
qed

text \<open>
  Claim C2, the run that the sentence of the specification leaves out: the record update
  is persisted, the \<open>replaceReferences\<close> call for \<open>authors\<close> is rejected, and the call for
  \<open>tags\<close>, whose key comes later in \<open>updates\<close>, is never issued.
\<close>

theorem refs_skipped_after_rejection_counterexample:
  "post_updateItemField failing_env
     (sample_update_request
        [(''refs_authors'', Arr [Str ''a1'']), (''refs_tags'', Arr [Str ''t1''])]) =
   (Inr (badRequest_error (Error ''WDE0025'')),
    \<lparr>trace =
       [(getSecret ''my_secret'', Inr (Str ''s3cret'')),
        (wixData_get (Str ''Items'') (Str ''item-1''),
         Inr (Obj [(''_id'', Str ''item-1''), (''title'', Str ''Old title'')])),
        (wixData_update (Str ''Items'')
           (Obj [(''_id'', Str ''item-1''), (''title'', Str ''Old title'')]),
         Inr (Obj [(''_id'', Str ''item-1''), (''title'', Str ''Old title'')])),
        (wixData_replaceReferences (Str ''Items'') (Str ''authors'') (Str ''item-1'')
           (Arr [Str ''a1'']),
         Inl (Error ''WDE0025''))],
     console = [console_error [LogText ''Error updating item:'', LogError (Error ''WDE0025'')]]\<rparr>)"
  by (simp add: failing_updateItemField_defs)

section \<open>Keys that are intercepted\<close>

lemma import_for_field_trace:
  "\<exists>ext. trace (snd (import_for_field env c i key v st)) = trace st @ ext \<and>
         (\<forall>(cl, r) \<in> set ext. \<exists>p u opts. cl = mediaManager_importFile p u opts)"
proof -
  have "trace (snd (import_for_field env c i key v st)) = trace st \<or>
        (\<exists>p u opts r. trace (snd (import_for_field env c i key v st)) =
                        trace st @ [(mediaManager_importFile p u opts, r)])"
    by (auto simp: import_for_field_def perform_def split: sum.splits prod.splits)
  then show ?thesis
  proof
    assume "trace (snd (import_for_field env c i key v st)) = trace st"
    then show ?thesis by (intro exI [of _ "[]"]) simp
  next
    assume "\<exists>p u opts r. trace (snd (import_for_field env c i key v st)) =
                          trace st @ [(mediaManager_importFile p u opts, r)]"
    then obtain p u opts r where
      "trace (snd (import_for_field env c i key v st)) =
         trace st @ [(mediaManager_importFile p u opts, r)]"
      by blast
    then show ?thesis by (intro exI [of _ "[(mediaManager_importFile p u opts, r)]"]) simp
  qed
qed

lemma import_loop_trace:
  "\<exists>ext. trace (snd (import_loop env c i entries st)) = trace st @ ext \<and>
         (\<forall>(cl, r) \<in> set ext. \<exists>p u opts. cl = mediaManager_importFile p u opts)"
proof (induction entries arbitrary: st)
  case Nil
  show ?case by simp
next
  case (Cons entry entries)
  obtain key v where entry: "entry = (key, v)" by (cases entry)
  show ?case
  proof (cases "startsWith key ''image_''")
    case False
    with Cons.IH [of st] show ?thesis by (simp add: entry)
  next
    case True
    obtain res st1 where one: "import_for_field env c i key v st = (res, st1)"
      by (cases "import_for_field env c i key v st")
    from import_for_field_trace [of env c i key v st] one obtain ext1 where
      e1: "trace st1 = trace st @ ext1" and
      o1: "\<forall>(cl, r) \<in> set ext1. \<exists>p u opts. cl = mediaManager_importFile p u opts"
      by auto
    show ?thesis
    proof (cases res)
      case (Inl e)
      with True one e1 o1 show ?thesis by (simp add: entry)
    next
      case (Inr u)
      from Cons.IH [of st1] obtain ext2 where
        e2: "trace (snd (import_loop env c i entries st1)) = trace st1 @ ext2" and
        o2: "\<forall>(cl, r) \<in> set ext2. \<exists>p u opts. cl = mediaManager_importFile p u opts"
        by blast
      from True one Inr e1 e2 o1 o2 show ?thesis
        by (intro exI [of _ "ext1 @ ext2"]) (auto simp: entry)
    qed
  qed
qed


lemma uploadImageToItem_calls:
  "\<forall>(cl, r) \<in> set (trace (snd (post_uploadImageToItem env req))).
     cl = getSecret ''make_connector'' \<or> (\<exists>p u opts. cl = mediaManager_importFile p u opts)"
proof -
  let ?ok = "\<lambda>h. \<forall>(cl, r) \<in> set h.
     cl = getSecret ''make_connector'' \<or> (\<exists>p u opts. cl = mediaManager_importFile p u opts)"
  obtain p st0 where perm: "isPermitted ''make_connector'' env (headers req) initial = (p, st0)"
    by (cases "isPermitted ''make_connector'' env (headers req) initial")
  from isPermitted_trace [of "''make_connector''" env "headers req" initial] perm
  have ok0: "?ok (trace st0)"
    by (auto simp: initial_def)
  have "?ok (trace (snd (uploadImageToItem_try env req st0)))"
  proof -
    have "trace (snd (uploadImageToItem_try env req st0)) = trace st0 \<or>
          (\<exists>cn i entries. uploadImageToItem_try env req st0 = import_loop env cn i entries st0)"
      by (auto simp: uploadImageToItem_try_def split: sum.splits prod.splits)
    then show ?thesis
    proof
      assume "trace (snd (uploadImageToItem_try env req st0)) = trace st0"
      with ok0 show ?thesis by simp
    next
      assume "\<exists>cn i entries. uploadImageToItem_try env req st0 = import_loop env cn i entries st0"
      then obtain cn i entries where
        run: "uploadImageToItem_try env req st0 = import_loop env cn i entries st0"
        by blast
      from import_loop_trace [of env cn i entries st0] obtain ext where
        "trace (snd (import_loop env cn i entries st0)) = trace st0 @ ext"
        "\<forall>(cl, r) \<in> set ext. \<exists>p u opts. cl = mediaManager_importFile p u opts"
        by blast
      with ok0 run show ?thesis by auto
    qed
  qed
  moreover have "trace (snd (post_uploadImageToItem env req)) =
      (if p then trace (snd (uploadImageToItem_try env req st0)) else trace st0)"
    using perm
    by (cases "uploadImageToItem_try env req st0")
      (auto simp: post_uploadImageToItem_def split: sum.splits)
  ultimately show ?thesis using ok0 by (simp split: if_splits)
qed

lemma requested_imports_append [simp]:
  "requested_imports (h1 @ h2) = requested_imports h1 @ requested_imports h2"
  by (simp add: requested_imports_def)

lemma requested_imports_Nil [simp]: "requested_imports [] = []"
  by (simp add: requested_imports_def)

lemma requested_imports_getSecret [simp]: "requested_imports [(getSecret n, r)] = []"
  by (simp add: requested_imports_def)

lemma import_for_field_imports:
  assumes "startsWith key ''image_''"
  shows "(requested_imports (trace (snd (import_for_field env c i key v st))) =
            requested_imports (trace st) \<and>
          fst (import_for_field env c i key v st) \<noteq> Inr ()) \<or>
         requested_imports (trace (snd (import_for_field env c i key v st))) =
            requested_imports (trace st) @ [(v, Str (drop 6 key))]"
proof -
  have "replace key ''image_'' [] = drop (length ''image_'') key"
    using assms by (simp add: startsWith_def replace_prefix del: length_Cons list.size)
  then have r: "replace key ''image_'' [] = drop 6 key"
    by (simp add: eval_nat_numeral)
  show ?thesis
    by (auto simp: import_for_field_def perform_def requested_imports_def get_prop_optional_def r
        split: sum.splits prod.splits)
qed

lemma import_loop_imports:
  "\<exists>ext. requested_imports (trace (snd (import_loop env c i entries st))) =
           requested_imports (trace st) @ ext \<and>
         prefix ext (map (\<lambda>(key, v). (v, Str (drop 6 key)))
                       (filter (\<lambda>(key, v). startsWith key ''image_'') entries)) \<and>
         (fst (import_loop env c i entries st) = Inr () \<longrightarrow>
            ext = map (\<lambda>(key, v). (v, Str (drop 6 key)))
                    (filter (\<lambda>(key, v). startsWith key ''image_'') entries))"
proof (induction entries arbitrary: st)
  case Nil
  show ?case by simp
next
  case (Cons entry entries)
  let ?E = "\<lambda>es. map (\<lambda>(key, v). (v, Str (drop 6 key)))
                    (filter (\<lambda>(key, v). startsWith key ''image_'') es)"
  obtain key v where entry: "entry = (key, v)" by (cases entry)
  show ?case
  proof (cases "startsWith key ''image_''")
    case False
    with Cons.IH [of st] show ?thesis by (simp add: entry)
  next
    case True
    obtain res st1 where one: "import_for_field env c i key v st = (res, st1)"
      by (cases "import_for_field env c i key v st")
    show ?thesis
    proof (cases res)
      case (Inl e)
      from import_for_field_imports [OF True, of env c i v st] one
      have "requested_imports (trace st1) = requested_imports (trace st) \<or>
            requested_imports (trace st1) = requested_imports (trace st) @ [(v, Str (drop 6 key))]"
        by auto
      then show ?thesis
      proof
        assume "requested_imports (trace st1) = requested_imports (trace st)"
        with True one Inl show ?thesis by (intro exI [of _ "[]"]) (simp add: entry)
      next
        assume "requested_imports (trace st1) =
                  requested_imports (trace st) @ [(v, Str (drop 6 key))]"
        with True one Inl show ?thesis
          by (intro exI [of _ "[(v, Str (drop 6 key))]"]) (simp add: entry)
      qed
    next
      case (Inr u)
      from import_for_field_imports [OF True, of env c i v st] one Inr
      have r1: "requested_imports (trace st1) =
                  requested_imports (trace st) @ [(v, Str (drop 6 key))]"
        by auto
      from Cons.IH [of st1] obtain ext where
        e: "requested_imports (trace (snd (import_loop env c i entries st1))) =
              requested_imports (trace st1) @ ext" and
        p: "prefix ext (?E entries)" and
        s: "fst (import_loop env c i entries st1) = Inr () \<longrightarrow> ext = ?E entries"
        by blast
      from True one Inr r1 e p s show ?thesis
        by (intro exI [of _ "(v, Str (drop 6 key)) # ext"]) (simp add: entry)
    qed
  qed
qed

lemma uploadImageToItem_imports:
  assumes "body req = Inr b" and "get_prop b ''updates'' = Inr (Obj us)"
  shows "prefix (requested_imports (trace (snd (post_uploadImageToItem env req))))
           (map (\<lambda>(key, v). (v, Str (drop 6 key)))
              (filter (\<lambda>(key, v). startsWith key ''image_'') us)) \<and>
         (fst (post_uploadImageToItem env req) = Inr ok_success \<longrightarrow>
            requested_imports (trace (snd (post_uploadImageToItem env req))) =
              map (\<lambda>(key, v). (v, Str (drop 6 key)))
                (filter (\<lambda>(key, v). startsWith key ''image_'') us))"
proof -
  let ?E = "map (\<lambda>(key, v). (v, Str (drop 6 key)))
              (filter (\<lambda>(key, v). startsWith key ''image_'') us)"
  obtain p st0 where perm: "isPermitted ''make_connector'' env (headers req) initial = (p, st0)"
    by (cases "isPermitted ''make_connector'' env (headers req) initial")
  from isPermitted_trace [of "''make_connector''" env "headers req" initial] perm
  have r0: "requested_imports (trace st0) = []"
    by (auto simp: initial_def)
  show ?thesis
  proof (cases p)
    case False
    with perm r0 show ?thesis by (simp add: post_uploadImageToItem_def)
  next
    case True
    have "(\<exists>e. uploadImageToItem_try env req st0 = (Inl e, st0)) \<or>
          (\<exists>cn i. uploadImageToItem_try env req st0 = import_loop env cn i us st0)"
      using assms by (auto simp: uploadImageToItem_try_def split: sum.splits prod.splits)
    then show ?thesis
    proof
      assume "\<exists>e. uploadImageToItem_try env req st0 = (Inl e, st0)"
      with perm True r0 show ?thesis by (auto simp: post_uploadImageToItem_def)
    next
      assume "\<exists>cn i. uploadImageToItem_try env req st0 = import_loop env cn i us st0"
      then obtain cn i where
        run: "uploadImageToItem_try env req st0 = import_loop env cn i us st0"
        by blast
      obtain res st1 where loop: "import_loop env cn i us st0 = (res, st1)"
        by (cases "import_loop env cn i us st0")
      from import_loop_imports [of env cn i us st0] loop r0 have
        "prefix (requested_imports (trace st1)) ?E"
        "res = Inr () \<longrightarrow> requested_imports (trace st1) = ?E"
        by auto
      with perm True run loop show ?thesis
        by (cases res) (simp_all add: post_uploadImageToItem_def)
    qed
  qed
qed

lemma image_key_stored:
  assumes "body req = Inr b"
    and "get_prop b ''updates'' = Inr (Obj (pre @ (''image_'' @ f, w) # post))"
    and "(wixData_update c (Obj merged), r) \<in> set (trace (snd (post_updateItemField env req)))"
    and "\<forall>(key, x) \<in> set post.
           key \<noteq> ''image_'' @ f \<and> key \<noteq> ''date_image_'' @ f \<and> key \<noteq> ''safebool_image_'' @ f"
  shows "map_of merged (''image_'' @ f) = Some w"
proof -
  let ?key = "''image_'' @ f"
  let ?us = "pre @ (?key, w) # post"
  from handler_update_call [OF assms(3,1,2)] obtain ex cleaned refs where
    cu: "cleanedUpdates env ?us = Inr (cleaned, refs)" and
    m: "merged = spread [ex, Obj (own cleaned)]"
    by blast
  have dist: "distinct (map fst (own cleaned))" by (rule cleaned_distinct [OF cu])
  from cu obtain a1 m1 where
    p: "reduce env pre (empty_object, []) = Inr (a1, m1)" and
    q: "reduce env ((?key, w) # post) (a1, m1) = Inr (cleaned, refs)"
    by (auto simp: cleanedUpdates_def reduce_append split: sum.splits)
  have step: "reducer env (a1, m1) (?key, w) = Inr (assign a1 ?key w, m1)"
    by (simp add: startsWith_def)
  from q have rest: "reduce env post (assign a1 ?key w, m1) = Inr (cleaned, refs)"
    by (simp add: step del: append.simps reducer.simps)
  have np: "?key \<noteq> ''__proto__''" by simp
  have "map_of (own cleaned) ?key = map_of (own (assign a1 ?key w)) ?key"
    using assms(4) by (intro reduce_frame [OF rest]) auto
  also have "\<dots> = Some w" using np by (rule own_assign_same)
  finally show ?thesis by (simp add: m map_of_merged [OF dist])
qed

text \<open>
  Claim C3.  In the merge of \<open>post_updateItemField\<close> a key with the \<open>refs_\<close> prefix never
  reaches the literal pass-through: its step leaves the accumulated record untouched (the
  value goes to the deferred list when it is an array), the cleaned record, or the error,
  of a whole \<open>updates\<close> is the same with and without the entry, and every record that the
  handler persists is the item that it fetched overlaid with the record cleaned from the
  other entries.

  That merge has no branch for the \<open>image_\<close> prefix.  When \<open>updates\<close> holds the key
  \<open>image_<f>\<close> with value \<open>w\<close> and no later key is \<open>image_<f>\<close>, \<open>date_image_<f>\<close> or
  \<open>safebool_image_<f>\<close>, every record that the handler persists holds \<open>w\<close> under the
  literal key \<open>image_<f>\<close>.

  Keys with the \<open>image_\<close> prefix are intercepted by \<open>post_uploadImageToItem\<close>.  Its only
  platform calls are the read of the secret and imports.  The imports it requests are, in
  the order of \<open>updates\<close>, those of the keys \<open>image_<f>\<close>, each with the raw value as the
  URL and \<open>f\<close> as the field name of the context: all of them when the handler answers
  with success, and the first ones of them in every other run.
\<close>

theorem refs_intercepted_images_imported:
  "reducer env (acc, m) (''refs_'' @ k, v) = Inr (acc, if isArray v then m @ [(k, v)] else m) \<and>
   map_sum id fst (cleanedUpdates env (pre @ (''refs_'' @ k, v) # post)) =
     map_sum id fst (cleanedUpdates env (pre @ post)) \<and>
   (body req = Inr b \<and>
    get_prop b ''updates'' = Inr (Obj (pre @ (''refs_'' @ k, v) # post)) \<and>
    (wixData_update c (Obj merged), r) \<in> set (trace (snd (post_updateItemField env req))) \<longrightarrow>
      (\<exists>cn i existingItem cleaned others.
         (wixData_get cn i, Inr existingItem)
           \<in> set (trace (snd (post_updateItemField env req))) \<and>
         cleanedUpdates env (pre @ post) = Inr (cleaned, others) \<and>
         merged = spread [existingItem, Obj (own cleaned)])) \<and>
   (body req' = Inr b' \<and>
    get_prop b' ''updates'' = Inr (Obj (pre' @ (''image_'' @ f, w) # post')) \<and>
    (wixData_update c' (Obj merged'), r') \<in> set (trace (snd (post_updateItemField env req'))) \<and>
    (\<forall>(key, x) \<in> set post'.
       key \<noteq> ''image_'' @ f \<and> key \<noteq> ''date_image_'' @ f \<and> key \<noteq> ''safebool_image_'' @ f) \<longrightarrow>
      map_of merged' (''image_'' @ f) = Some w) \<and>
   (\<forall>(cl, res) \<in> set (trace (snd (post_uploadImageToItem env req'))).
      cl = getSecret ''make_connector'' \<or> (\<exists>p u opts. cl = mediaManager_importFile p u opts)) \<and>
   (body req' = Inr b' \<and> get_prop b' ''updates'' = Inr (Obj us) \<longrightarrow>
      prefix (requested_imports (trace (snd (post_uploadImageToItem env req'))))
        (map (\<lambda>(key, x). (x, Str (drop 6 key)))
           (filter (\<lambda>(key, x). startsWith key ''image_'') us)) \<and>
      (fst (post_uploadImageToItem env req') = Inr ok_success \<longrightarrow>
         requested_imports (trace (snd (post_uploadImageToItem env req'))) =
           map (\<lambda>(key, x). (x, Str (drop 6 key)))
             (filter (\<lambda>(key, x). startsWith key ''image_'') us)))"
proof (intro conjI)
  show "reducer env (acc, m) (''refs_'' @ k, v) = Inr (acc, if isArray v then m @ [(k, v)] else m)"
    by (rule reducer_refs)
  show same: "map_sum id fst (cleanedUpdates env (pre @ (''refs_'' @ k, v) # post)) =
          map_sum id fst (cleanedUpdates env (pre @ post))"
    by (rule cleanedUpdates_refs_record)
  show "body req = Inr b \<and>
    get_prop b ''updates'' = Inr (Obj (pre @ (''refs_'' @ k, v) # post)) \<and>
    (wixData_update c (Obj merged), r) \<in> set (trace (snd (post_updateItemField env req))) \<longrightarrow>
      (\<exists>cn i existingItem cleaned others.
         (wixData_get cn i, Inr existingItem)
           \<in> set (trace (snd (post_updateItemField env req))) \<and>
         cleanedUpdates env (pre @ post) = Inr (cleaned, others) \<and>
         merged = spread [existingItem, Obj (own cleaned)])"
  proof (intro impI, elim conjE)
    assume h: "body req = Inr b"
      "get_prop b ''updates'' = Inr (Obj (pre @ (''refs_'' @ k, v) # post))"
      "(wixData_update c (Obj merged), r) \<in> set (trace (snd (post_updateItemField env req)))"
    from handler_update_call [OF h(3,1,2)] obtain cn i ex cleaned refs where
      get: "(wixData_get cn i, Inr ex) \<in> set (trace (snd (post_updateItemField env req)))" and
      cu: "cleanedUpdates env (pre @ (''refs_'' @ k, v) # post) = Inr (cleaned, refs)" and
      m: "merged = spread [ex, Obj (own cleaned)]"
      by blast
    from same [unfolded cu] obtain others where
      "cleanedUpdates env (pre @ post) = Inr (cleaned, others)"
      by (cases "cleanedUpdates env (pre @ post)") auto
    with get m show "\<exists>cn i existingItem cleaned others.
         (wixData_get cn i, Inr existingItem)
           \<in> set (trace (snd (post_updateItemField env req))) \<and>
         cleanedUpdates env (pre @ post) = Inr (cleaned, others) \<and>
         merged = spread [existingItem, Obj (own cleaned)]"
      by blast
  qed
  show "body req' = Inr b' \<and>
    get_prop b' ''updates'' = Inr (Obj (pre' @ (''image_'' @ f, w) # post')) \<and>
    (wixData_update c' (Obj merged'), r') \<in> set (trace (snd (post_updateItemField env req'))) \<and>
    (\<forall>(key, x) \<in> set post'.
       key \<noteq> ''image_'' @ f \<and> key \<noteq> ''date_image_'' @ f \<and> key \<noteq> ''safebool_image_'' @ f) \<longrightarrow>
      map_of merged' (''image_'' @ f) = Some w"
    by (intro impI, elim conjE) (rule image_key_stored)
  show "\<forall>(cl, res) \<in> set (trace (snd (post_uploadImageToItem env req'))).
      cl = getSecret ''make_connector'' \<or> (\<exists>p u opts. cl = mediaManager_importFile p u opts)"
    by (rule uploadImageToItem_calls)
  show "body req' = Inr b' \<and> get_prop b' ''updates'' = Inr (Obj us) \<longrightarrow>
      prefix (requested_imports (trace (snd (post_uploadImageToItem env req'))))
        (map (\<lambda>(key, x). (x, Str (drop 6 key)))
           (filter (\<lambda>(key, x). startsWith key ''image_'') us)) \<and>
      (fst (post_uploadImageToItem env req') = Inr ok_success \<longrightarrow>
         requested_imports (trace (snd (post_uploadImageToItem env req'))) =
           map (\<lambda>(key, x). (x, Str (drop 6 key)))
             (filter (\<lambda>(key, x). startsWith key ''image_'') us))"
    by (intro impI, elim conjE) (rule uploadImageToItem_imports)
qed

text \<open>The definitions that evaluate \<open>post_uploadImageToItem\<close> on the sample platform.\<close>

lemmas uploadImageToItem_defs =
  post_uploadImageToItem_def uploadImageToItem_try_def import_for_field_def
  fileName_from_url_def getMimeType_def mime_map_def toLowerCase_def Object_entries_def
  sample_update_request_def sample_env_def sample_respond_def isPermitted_def perform_def
  emit_def initial_def strict_equals_def startsWith_def object_prototype_names_def

theorem refs_intercepted_images_imported_witness:
  "reducer sample_env (empty_object, []) (''refs_tags'', Arr [Str ''t1'']) =
     Inr (empty_object, [(''tags'', Arr [Str ''t1''])]) \<and>
   (\<exists>cn i existingItem cleaned others.
      (wixData_get cn i, Inr existingItem)
        \<in> set (trace (snd (post_updateItemField sample_env
             (sample_update_request
                [(''title'', Str ''New title''), (''refs_tags'', Arr [Str ''t1''])])))) \<and>
      cleanedUpdates sample_env [(''title'', Str ''New title'')] = Inr (cleaned, others) \<and>
      [(''_id'', Str ''item-1''), (''title'', Str ''New title'')] =
        spread [existingItem, Obj (own cleaned)]) \<and>
   map_of [(''_id'', Str ''item-1''), (''title'', Str ''New title''),
           (''image_photo'', Str ''https://example.com/a.png'')] ''image_photo'' =
     Some (Str ''https://example.com/a.png'') \<and>
   requested_imports (trace (snd (post_uploadImageToItem sample_env
      (sample_update_request
         [(''image_photo'', Str ''https://example.com/a.png''),
          (''title'', Str ''New title'')])))) =
     [(Str ''https://example.com/a.png'', Str ''photo'')]"
proof -
  let ?url = "Str ''https://example.com/a.png''"
  let ?rs = "[(''title'', Str ''New title''), (''refs_tags'', Arr [Str ''t1''])]"
  let ?is = "[(''image_photo'', ?url), (''title'', Str ''New title'')]"
  let ?req = "sample_update_request ?rs"
  let ?req' = "sample_update_request ?is"
  let ?b = "Obj [(''collectionName'', Str ''Items''), (''itemId'', Str ''item-1''),
                 (''updates'', Obj ?rs)]"
  let ?b' = "Obj [(''collectionName'', Str ''Items''), (''itemId'', Str ''item-1''),
                  (''updates'', Obj ?is)]"
  let ?merged = "[(''_id'', Str ''item-1''), (''title'', Str ''New title'')]"
  let ?merged' = "[(''_id'', Str ''item-1''), (''title'', Str ''New title''), (''image_photo'', ?url)]"
  have b: "body ?req = Inr ?b" and b': "body ?req' = Inr ?b'"
    by (simp_all add: sample_update_request_def)
  have u: "get_prop ?b ''updates'' = Inr (Obj ?rs)" and u': "get_prop ?b' ''updates'' = Inr (Obj ?is)"
    by simp_all
  have w: "(wixData_update (Str ''Items'') (Obj ?merged), Inr (Obj ?merged))
             \<in> set (trace (snd (post_updateItemField sample_env ?req)))"
    by (simp add: updateItemField_defs)
  have w': "(wixData_update (Str ''Items'') (Obj ?merged'), Inr (Obj ?merged'))
             \<in> set (trace (snd (post_updateItemField sample_env ?req')))"
    by (simp add: updateItemField_defs)
  have s: "fst (post_uploadImageToItem sample_env ?req') = Inr ok_success"
    by (simp add: uploadImageToItem_defs)
  from refs_intercepted_images_imported
      [where env = sample_env and acc = empty_object and m = "[]" and k = "''tags''"
         and v = "Arr [Str ''t1'']" and pre = "[(''title'', Str ''New title'')]" and post = "[]"
         and req = ?req and b = ?b and c = "Str ''Items''" and merged = ?merged
         and r = "Inr (Obj ?merged)"
         and req' = ?req' and b' = ?b' and pre' = "[]" and f = "''photo''" and w = ?url
         and post' = "[(''title'', Str ''New title'')]" and c' = "Str ''Items''"
         and merged' = ?merged' and r' = "Inr (Obj ?merged')" and us = ?is]
    b b' u u' w w' s
  show ?thesis
    by (simp add: startsWith_def)
qed

text \<open>
  Claim C3, the input that the sentence of the specification leaves out: with
  \<open>{ image_photo: "https://example.com/a.png" }\<close> the record that \<open>post_updateItemField\<close>
  persists holds the URL under \<open>image_photo\<close>.
\<close>

theorem image_key_passes_through_counterexample:
  "trace (snd (post_updateItemField sample_env
       (sample_update_request [(''image_photo'', Str ''https://example.com/a.png'')]))) =
     [(getSecret ''my_secret'', Inr (Str ''s3cret'')),
      (wixData_get (Str ''Items'') (Str ''item-1''),
       Inr (Obj [(''_id'', Str ''item-1''), (''title'', Str ''Old title'')])),
      (wixData_update (Str ''Items'')
         (Obj [(''_id'', Str ''item-1''), (''title'', Str ''Old title''),
               (''image_photo'', Str ''https://example.com/a.png'')]),
       Inr (Obj [(''_id'', Str ''item-1''), (''title'', Str ''Old title''),
                 (''image_photo'', Str ''https://example.com/a.png'')]))]"
  by (simp add: updateItemField_defs)

section \<open>Authorization: when a request is permitted\<close>

lemma header_names [simp]:
  "''authorization'' \<notin> set object_prototype_names" "''auth'' \<notin> set object_prototype_names"
  by (simp_all add: object_prototype_names_def)

lemma isPermitted_result:
  "fst (isPermitted n env (Obj hs) st) =
     (case respond env (trace st) (getSecret n) of
        Inl e \<Rightarrow> False
      | Inr s \<Rightarrow>
          strict_equals
            (if truthy (get_prop_optional (Obj hs) ''authorization'')
             then get_prop_optional (Obj hs) ''authorization''
             else get_prop_optional (Obj hs) ''auth'') s)"
  by (auto simp: isPermitted_def perform_def get_prop_optional_def
      split: option.splits sum.splits)

text \<open>
  C8. For every header object, when the secret is retrieved, \<open>isPermitted\<close> is true
  exactly when the header value is the secret, character for character; the header value
  is \<open>authorization\<close> when that is present and not falsy (not the empty string), and
  \<open>auth\<close> otherwise. When the retrieval of the secret fails, \<open>isPermitted\<close> is false.
\<close>

theorem isPermitted_iff_header_equals_secret:
  "(respond env (trace st) (getSecret n) = Inr (Str secret) \<longrightarrow>
      fst (isPermitted n env (Obj hs) st) =
        ((if truthy (get_prop_optional (Obj hs) ''authorization'')
          then get_prop_optional (Obj hs) ''authorization''
          else get_prop_optional (Obj hs) ''auth'') = Str secret)) \<and>
   (respond env (trace st) (getSecret n) = Inl e \<longrightarrow> fst (isPermitted n env (Obj hs) st) = False)"
  by (simp add: isPermitted_result strict_equals_primitive)

theorem isPermitted_iff_header_equals_secret_witness:
  "fst (isPermitted ''my_secret'' sample_env (Obj [(''auth'', Str ''s3cret'')]) initial) = True \<and>
   fst (isPermitted ''my_secret'' sample_env (Obj [(''auth'', Str ''S3cret'')]) initial) = False"
proof -
  have s: "respond sample_env (trace initial) (getSecret ''my_secret'') = Inr (Str ''s3cret'')"
    by (simp add: sample_env_def sample_respond_def)
  from isPermitted_iff_header_equals_secret
         [where env = sample_env and st = initial and n = "''my_secret''" and secret = "''s3cret''"
            and hs = "[(''auth'', Str ''s3cret'')]", THEN conjunct1, THEN mp, OF s]
       isPermitted_iff_header_equals_secret
         [where env = sample_env and st = initial and n = "''my_secret''" and secret = "''s3cret''"
            and hs = "[(''auth'', Str ''S3cret'')]", THEN conjunct1, THEN mp, OF s]
  show ?thesis by (simp add: get_prop_optional_def)
qed

text \<open>
  With an \<open>authorization\<close> header that is present and empty, the header value as the
  specification words it is the empty string, which is not the secret; the request is
  permitted all the same, through its \<open>auth\<close> header.
\<close>

theorem isPermitted_empty_authorization_counterexample:
  "respond sample_env (trace initial) (getSecret ''make_connector'') = Inr (Str ''s3cret'') \<and>
   header_value_as_specified [(''authorization'', Str ''''), (''auth'', Str ''s3cret'')] = Str '''' \<and>
   fst (isPermitted ''make_connector'' sample_env
          (Obj [(''authorization'', Str ''''), (''auth'', Str ''s3cret'')]) initial) = True"
  by (simp add: isPermitted_result header_value_as_specified_def get_prop_optional_def
      sample_env_def sample_respond_def strict_equals_def)

text \<open>
  C10. Whenever \<open>headers.authorization\<close> is falsy (absent, empty, or any other falsy
  value), \<open>isPermitted\<close> compares \<open>headers.auth\<close> with the secret. In particular a
  request with an empty \<open>authorization\<close> header and an \<open>auth\<close> header equal to the
  secret is permitted.
\<close>

theorem isPermitted_falls_back_when_falsy:
  "(\<not> truthy (get_prop_optional (Obj hs) ''authorization'') \<longrightarrow>
      fst (isPermitted n env (Obj hs) st) =
        (case respond env (trace st) (getSecret n) of
           Inl e \<Rightarrow> False
         | Inr s \<Rightarrow> strict_equals (get_prop_optional (Obj hs) ''auth'') s)) \<and>
   (map_of hs ''authorization'' = Some (Str '''') \<and> map_of hs ''auth'' = Some (Str secret) \<and>
    respond env (trace st) (getSecret n) = Inr (Str secret) \<longrightarrow>
      fst (isPermitted n env (Obj hs) st) = True)"
  by (simp add: isPermitted_result get_prop_optional_def strict_equals_def)

theorem isPermitted_falls_back_when_falsy_witness:
  "fst (isPermitted ''my_secret'' sample_env
          (Obj [(''authorization'', Str ''''), (''auth'', Str ''s3cret'')]) initial) = True \<and>
   fst (isPermitted ''my_secret'' sample_env
          (Obj [(''authorization'', Null), (''auth'', Str ''wrong'')]) initial) = False"
proof -
  have s: "respond sample_env (trace initial) (getSecret ''my_secret'') = Inr (Str ''s3cret'')"
    by (simp add: sample_env_def sample_respond_def)
  have a: "map_of [(''authorization'', Str ''''), (''auth'', Str ''s3cret'')] ''authorization'' =
             Some (Str '''') \<and>
           map_of [(''authorization'', Str ''''), (''auth'', Str ''s3cret'')] ''auth'' =
             Some (Str ''s3cret'') \<and>
           respond sample_env (trace initial) (getSecret ''my_secret'') = Inr (Str ''s3cret'')"
    using s by simp
  have f: "\<not> truthy (get_prop_optional (Obj [(''authorization'', Null), (''auth'', Str ''wrong'')])
                     ''authorization'')"
    by (simp add: get_prop_optional_def)
  from isPermitted_falls_back_when_falsy [THEN conjunct2, THEN mp, OF a]
       isPermitted_falls_back_when_falsy
         [where env = sample_env and st = initial and n = "''my_secret''"
            and hs = "[(''authorization'', Null), (''auth'', Str ''wrong'')]",
          THEN conjunct1, THEN mp, OF f]
  show ?thesis by (simp add: s get_prop_optional_def strict_equals_def)
qed

section \<open>The bulk upload\<close>


lemma upload_image_skipped:
  "upload_image env f img st = (Inr None, st') \<Longrightarrow>
   \<not> truthy (get_prop_optional img ''publicUrl'')"
  by (auto simp: upload_image_def get_prop_optional_def
      split: sum.splits prod.splits if_splits)

lemma upload_image_pushed:
  "upload_image env f img st = (Inr (Some r), st') \<Longrightarrow>
   truthy (get_prop_optional img ''publicUrl'') \<and>
   get_prop_optional r ''originalUrl'' = get_prop_optional img ''publicUrl''"
  by (auto simp: upload_image_def get_prop_optional_def
      split: sum.splits prod.splits if_splits)

lemma upload_images_results:
  "upload_images env f imgs acc st = (Inr rs, st') \<Longrightarrow>
   \<exists>new. rs = acc @ new \<and>
     map (\<lambda>r. get_prop_optional r ''originalUrl'') new =
       filter truthy (map (\<lambda>img. get_prop_optional img ''publicUrl'') imgs)"
proof (induction imgs arbitrary: acc st)
  case Nil
  then show ?case by simp
next
  case (Cons img imgs)
  obtain res st1 where one: "upload_image env f img st = (res, st1)"
    by (cases "upload_image env f img st")
  show ?case
  proof (cases res)
    case (Inl e)
    with Cons.prems one show ?thesis by simp
  next
    case (Inr outcome)
    show ?thesis
    proof (cases outcome)
      case None
      with Cons.prems one Inr have "upload_images env f imgs acc st1 = (Inr rs, st')" by simp
      from Cons.IH [OF this] upload_image_skipped [of env f img st st1] one Inr None
      show ?thesis by auto
    next
      case (Some r)
      with Cons.prems one Inr have "upload_images env f imgs (acc @ [r]) st1 = (Inr rs, st')"
        by simp
      from Cons.IH [OF this] upload_image_pushed [of env f img st r st1] one Inr Some
      show ?thesis by auto
    qed
  qed
qed



text \<open>
  C6. In \<open>post_imageBulkUploader\<close>, an entry whose \<open>publicUrl\<close> is absent (falsy:
  missing, \<open>null\<close>, empty) is skipped: the loop goes on with the remaining entries,
  with the same results collected and no platform call made, only a warning logged.
  When the handler answers with success, the \<open>originalUrl\<close>s of the \<open>uploaded\<close>
  array are the \<open>publicUrl\<close>s of the entries that have one, in input order: one
  result for each such entry and none for the others.
\<close>

theorem missing_publicUrl_is_skipped:
  "(get_prop img ''publicUrl'' = Inr u \<and> \<not> truthy u \<longrightarrow>
      upload_images env folderName (img # rest) uploadedResults st =
        upload_images env folderName rest uploadedResults
          (emit (console_warn [LogText ''Skipping image without publicUrl'']) st)) \<and>
   (fst (post_imageBulkUploader env req) = Inr (ok_uploaded rs) \<and> body req = Inr b \<and>
    get_prop b ''images'' = Inr (Arr imgs) \<longrightarrow>
      map (\<lambda>r. get_prop_optional r ''originalUrl'') rs =
        filter truthy (map (\<lambda>img. get_prop_optional img ''publicUrl'') imgs))"
proof (intro conjI impI)
  assume "get_prop img ''publicUrl'' = Inr u \<and> \<not> truthy u"
  moreover from this obtain n where "get_prop img ''imageName'' = Inr n"
    using get_prop_defined by blast
  ultimately show "upload_images env folderName (img # rest) uploadedResults st =
        upload_images env folderName rest uploadedResults
          (emit (console_warn [LogText ''Skipping image without publicUrl'']) st)"
    by (simp add: upload_image_def)
next
  assume a: "fst (post_imageBulkUploader env req) = Inr (ok_uploaded rs) \<and> body req = Inr b \<and>
    get_prop b ''images'' = Inr (Arr imgs)"
  then obtain st0 st' where "imageBulkUploader_try env req st0 = (Inr rs, st')"
    by (auto simp: post_imageBulkUploader_def split: prod.splits bool.splits sum.splits)
  with a obtain f where "upload_images env f imgs [] st0 = (Inr rs, st')"
    by (auto simp: imageBulkUploader_try_def split: sum.splits if_splits)
  from upload_images_results [OF this]
  show "map (\<lambda>r. get_prop_optional r ''originalUrl'') rs =
        filter truthy (map (\<lambda>img. get_prop_optional img ''publicUrl'') imgs)"
    by simp
qed


text \<open>The definitions that evaluate \<open>post_imageBulkUploader\<close> on the sample platform.\<close>

lemmas imageBulkUploader_defs =
  post_imageBulkUploader_def imageBulkUploader_try_def upload_image_def fileName_from_url_def
  getMimeType_def mime_map_def toLowerCase_def sample_bulk_request_def sample_env_def
  sample_respond_def isPermitted_def perform_def emit_def initial_def strict_equals_def
  object_prototype_names_def get_prop_optional_def




theorem missing_publicUrl_is_skipped_witness:
  "fst (post_imageBulkUploader sample_env
     (sample_bulk_request
        [Obj [(''publicUrl'', Null)],
         Obj [(''imageName'', Str ''b.jpg''), (''publicUrl'', Str ''http://x/b.jpg'')]])) =
     Inr (ok_uploaded
       [Obj [(''originalUrl'', Str ''http://x/b.jpg''), (''fileUrl'', Str ''wix:image://v1/abc''),
             (''fileName'', Str ''abc''), (''mediaId'', Str ''m1'')]]) \<and>
   filter truthy
     (map (\<lambda>img. get_prop_optional img ''publicUrl'')
        [Obj [(''publicUrl'', Null)],
         Obj [(''imageName'', Str ''b.jpg''), (''publicUrl'', Str ''http://x/b.jpg'')]]) =
     [Str ''http://x/b.jpg'']"
proof -
  let ?n = "Obj [(''publicUrl'', Null)]"
  let ?i = "Obj [(''imageName'', Str ''b.jpg''), (''publicUrl'', Str ''http://x/b.jpg'')]"
  let ?req = "sample_bulk_request [?n, ?i]"
  let ?b = "Obj [(''folderName'', Str ''uploads''), (''images'', Arr [?n, ?i])]"
  let ?r = "Obj [(''originalUrl'', Str ''http://x/b.jpg''), (''fileUrl'', Str ''wix:image://v1/abc''),
                 (''fileName'', Str ''abc''), (''mediaId'', Str ''m1'')]"
  have ok: "fst (post_imageBulkUploader sample_env ?req) = Inr (ok_uploaded [?r])"
    by (simp add: imageBulkUploader_defs)
  have b: "body ?req = Inr ?b" by (simp add: sample_bulk_request_def)
  have i: "get_prop ?b ''images'' = Inr (Arr [?n, ?i])" by simp
  from missing_publicUrl_is_skipped [THEN conjunct2, THEN mp, OF conjI [OF ok conjI [OF b i]]] ok
  show ?thesis by (simp add: get_prop_optional_def)
qed

section \<open>The guard of the callback\<close>

text \<open>
  The callback of \<open>uploadImageToItem.js\<close>: when the context, one of its three fields
  or the file URL is missing, it writes one line to the console and calls nothing; it
  calls the platform only when all four are present.
\<close>

lemma onFileUploaded_skips_unless_complete:
  assumes "get_prop event ''context'' = Inr ctx" and "get_prop event ''fileInfo'' = Inr fileInfo"
    and "\<not> (truthy (get_prop_optional ctx ''collectionName'') \<and>
            truthy (get_prop_optional ctx ''itemId'') \<and>
            truthy (get_prop_optional ctx ''fieldName'') \<and>
            truthy (get_prop_optional fileInfo ''fileUrl''))"
  shows "wixMediaManager_onFileUploaded env event =
           (Inr (),
            emit (console_info
                    [LogText ''onFileUploaded skipped: Missing context or fileUrl'',
                     LogValue (Obj [(''context'', ctx), (''fileInfo'', fileInfo)])]) initial)"
  using assms by (auto simp: wixMediaManager_onFileUploaded_def)

lemma onFileUploaded_calls_only_when_complete:
  assumes "trace (snd (wixMediaManager_onFileUploaded env event)) \<noteq> []"
  shows "\<exists>ctx fileInfo.
           get_prop event ''context'' = Inr ctx \<and> get_prop event ''fileInfo'' = Inr fileInfo \<and>
           truthy (get_prop_optional ctx ''collectionName'') \<and>
           truthy (get_prop_optional ctx ''itemId'') \<and>
           truthy (get_prop_optional ctx ''fieldName'') \<and>
           truthy (get_prop_optional fileInfo ''fileUrl'')"
  using assms
  by (auto simp: wixMediaManager_onFileUploaded_def initial_def split: sum.splits if_splits)

text \<open>
  C4. An upload event without a context, as an import requested by
  \<open>post_imageBulkUploader\<close> produces it. The copy of the callback in
  \<open>src/unnamed/part_000\<close> throws a \<open>TypeError\<close> where it destructures the context, before
  its guard; it neither logs nor returns. The callback of \<open>uploadImageToItem.js\<close> logs
  the skipped event and changes nothing.
\<close>

theorem onFileUploaded_part_000_throws_without_context:
  "wixMediaManager_onFileUploaded_part_000 env
     (Obj [(''fileInfo'', Obj [(''fileUrl'', Str ''wix:image://v1/abc'')])]) =
     (Inl TypeError, initial) \<and>
   wixMediaManager_onFileUploaded env
     (Obj [(''fileInfo'', Obj [(''fileUrl'', Str ''wix:image://v1/abc'')])]) =
     (Inr (),
      emit (console_info
              [LogText ''onFileUploaded skipped: Missing context or fileUrl'',
               LogValue (Obj [(''context'', Undefined),
                              (''fileInfo'', Obj [(''fileUrl'', Str ''wix:image://v1/abc'')])])])
        initial)"
  by (simp add: wixMediaManager_onFileUploaded_part_000_def wixMediaManager_onFileUploaded_def
      get_prop_optional_def object_prototype_names_def)

end
